theory Spec2Isabelle
  imports Complex_Main "HOL-Library.Word" "HOL-Library.Sublist"
begin

section \<open>Strings and arrays of the host language\<close>

text \<open>
  A string of the source is a sequence of UTF-16 code units. \<open>length\<close>, \<open>charAt\<close>,
  indexing, \<open>split('')\<close>, \<open>includes\<close> and \<open>startsWith\<close> all work on code units.
\<close>

type_synonym jschar = "16 word"
type_synonym jsstring = "jschar list"

text \<open>ASCII literals, for readable examples.\<close>

definition utf16 :: "string \<Rightarrow> jsstring" where
  "utf16 s = map (\<lambda>c. of_nat (of_char c)) s"

text \<open>
  \<open>str.charAt(i)\<close> and \<open>str[i]\<close>: the code unit at \<open>i\<close>; out of range the source gets
  the empty string (respectively \<open>undefined\<close>), here \<open>None\<close>.
\<close>

definition charAt :: "jsstring \<Rightarrow> nat \<Rightarrow> jschar option" where
  "charAt s i = (if i < length s then Some (s ! i) else None)"

text \<open>
  \<open>a[i] = v\<close> on an array: inside the array the cell is overwritten; at or beyond its
  length the array grows, the cells in between being holes (filled with \<open>hole\<close> here).
\<close>

definition arraySet :: "'a \<Rightarrow> 'a list \<Rightarrow> nat \<Rightarrow> 'a \<Rightarrow> 'a list" where
  "arraySet hole xs i v =
     (if i < length xs then xs[i := v] else xs @ replicate (i - length xs) hole @ [v])"

section \<open>Edit distance\<close>

subsection \<open>calculateEditDistanceOptimized: two rolling rows, early exit\<close>

text \<open>The value stored in \<open>cur[j]\<close> by the inner loop body, at row \<open>i\<close>.\<close>

definition rowCell :: "jsstring \<Rightarrow> jsstring \<Rightarrow> nat \<Rightarrow> nat \<Rightarrow> int list \<Rightarrow> int list \<Rightarrow> int" where
  "rowCell str1 str2 i j prev cur =
     (if charAt str1 (i - 1) = charAt str2 (j - 1) then prev ! (j - 1)
      else min (prev ! (j - 1) + 1) (min (cur ! (j - 1) + 1) (prev ! j + 1)))"

text \<open>\<open>cur[0] = i\<close>, then the inner loop \<open>for (j = 1; j <= len2; j++)\<close>.\<close>

definition fillRow :: "jsstring \<Rightarrow> jsstring \<Rightarrow> nat \<Rightarrow> int list \<Rightarrow> int list \<Rightarrow> int list" where
  "fillRow str1 str2 i prev cur =
     fold (\<lambda>j c. c[j := rowCell str1 str2 i j prev c]) [1..<length str2 + 1] (cur[0 := int i])"

text \<open>
  The outer loop \<open>for (i = 1; i <= len1; i++)\<close> with its early return; the two arrays
  are swapped at the end of each round.
\<close>

function rowLoop :: "jsstring \<Rightarrow> jsstring \<Rightarrow> int \<Rightarrow> nat \<Rightarrow> int list \<Rightarrow> int list \<Rightarrow> int" where
  "rowLoop str1 str2 maxDistance i prev cur =
     (if i \<le> length str1 then
        (let cur' = fillRow str1 str2 i prev cur;
             minInRow = Min (set cur')
         in if minInRow > maxDistance then maxDistance + 1
            else rowLoop str1 str2 maxDistance (i + 1) cur' prev)
      else prev ! length str2)"
  by pat_completeness auto
termination
  by (relation "measure (\<lambda>(str1, str2, maxDistance, i, prev, cur). length str1 + 1 - i)") auto

declare rowLoop.simps [simp del]

text \<open>
  \<open>new Array(len2 + 1)\<close> is an array of holes; every cell is written before it is read,
  so the holes are modelled as 0.
\<close>

definition calculateEditDistanceOptimized :: "jsstring \<Rightarrow> jsstring \<Rightarrow> int \<Rightarrow> int" where
  "calculateEditDistanceOptimized str1 str2 maxDistance =
     (let len1 = length str1; len2 = length str2 in
      if \<bar>int len1 - int len2\<bar> > maxDistance then maxDistance + 1
      else
        (let prev = fold (\<lambda>j p. p[j := int j]) [0..<len2 + 1] (replicate (len2 + 1) 0);
             cur = replicate (len2 + 1) 0
         in rowLoop str1 str2 maxDistance 1 prev cur))"

subsection \<open>calculateEditDistance: the full matrix\<close>

definition matrixSet :: "int list list \<Rightarrow> nat \<Rightarrow> nat \<Rightarrow> int \<Rightarrow> int list list" where
  "matrixSet m i j v = m[i := arraySet 0 (m ! i) j v]"

text \<open>The value stored in \<open>matrix[i][j]\<close>; rows follow \<open>str2\<close>, columns \<open>str1\<close>.\<close>

definition matrixCell :: "jsstring \<Rightarrow> jsstring \<Rightarrow> nat \<Rightarrow> nat \<Rightarrow> int list list \<Rightarrow> int" where
  "matrixCell str1 str2 i j m =
     (if charAt str2 (i - 1) = charAt str1 (j - 1) then m ! (i - 1) ! (j - 1)
      else min (m ! (i - 1) ! (j - 1) + 1) (min (m ! i ! (j - 1) + 1) (m ! (i - 1) ! j + 1)))"

definition calculateEditDistance :: "jsstring \<Rightarrow> jsstring \<Rightarrow> int" where
  "calculateEditDistance str1 str2 =
     (let matrix0 = fold (\<lambda>i m. arraySet [] m i [int i]) [0..<length str2 + 1] [];
          matrix1 = fold (\<lambda>j m. matrixSet m 0 j (int j)) [0..<length str1 + 1] matrix0;
          matrix2 = fold (\<lambda>i m. fold (\<lambda>j m. matrixSet m i j (matrixCell str1 str2 i j m))
                                    [1..<length str1 + 1] m)
                         [1..<length str2 + 1] matrix1
      in matrix2 ! length str2 ! length str1)"

subsection \<open>The recurrence both loops tabulate\<close>

text \<open>
  Both tables hold, at \<open>(i, j)\<close>, the distance between a prefix of one string and a prefix
  of the other. \<open>lev\<close> is that recurrence on the reversed prefixes (the last character
  first); it is used in proofs only.
\<close>

fun lev :: "'a list \<Rightarrow> 'a list \<Rightarrow> int" where
  "lev [] ys = int (length ys)"
| "lev (x # xs) [] = int (length (x # xs))"
| "lev (x # xs) (y # ys) =
     (if x = y then lev xs ys
      else min (lev xs ys + 1) (min (lev (x # xs) ys + 1) (lev xs (y # ys) + 1)))"

definition prefixDist :: "'a list \<Rightarrow> 'a list \<Rightarrow> nat \<Rightarrow> nat \<Rightarrow> int" where
  "prefixDist s1 s2 i j = lev (rev (take i s1)) (rev (take j s2))"

text \<open>
  The Levenshtein distance as the spec's glossary has it: the minimum number of
  single-character insertions, deletions and substitutions that transform one string
  into the other. \<open>edits n xs ys\<close> says that \<open>n\<close> such operations, applied from left to
  right, transform \<open>xs\<close> into \<open>ys\<close>.
\<close>

inductive edits :: "int \<Rightarrow> 'a list \<Rightarrow> 'a list \<Rightarrow> bool" where
  stop: "edits 0 [] []"
| keep: "edits n xs ys \<Longrightarrow> edits n (x # xs) (x # ys)"
| subst: "edits n xs ys \<Longrightarrow> edits (n + 1) (x # xs) (y # ys)"
| del: "edits n xs ys \<Longrightarrow> edits (n + 1) (x # xs) ys"
| ins: "edits n xs ys \<Longrightarrow> edits (n + 1) xs (y # ys)"

code_pred edits .

text \<open>Row \<open>i\<close> of the table of calculateEditDistanceOptimized.\<close>

definition distRow :: "jsstring \<Rightarrow> jsstring \<Rightarrow> nat \<Rightarrow> int list" where
  "distRow s1 s2 i = map (prefixDist s1 s2 i) [0..<length s2 + 1]"

text \<open>
  The matrix of calculateEditDistance after rows \<open>1..n\<close> and the first \<open>k\<close> columns of
  row \<open>n + 1\<close>; the rows below still hold their first cell only.
\<close>

definition matState :: "jsstring \<Rightarrow> jsstring \<Rightarrow> nat \<Rightarrow> nat \<Rightarrow> int list list" where
  "matState str1 str2 n k =
     map (\<lambda>i. if i \<le> n then map (prefixDist str2 str1 i) [0..<length str1 + 1]
              else if i = n + 1 then map (prefixDist str2 str1 i) [0..<k + 1]
              else [int i]) [0..<length str2 + 1]"


section \<open>Normalizer\<close>

text \<open>
  \<open>toLowerCase\<close> is a function of the platform (the Unicode default lower-casing of a
  whole string: it is context dependent and may change the length), not of this program.
  The model takes it as a parameter \<open>lower\<close>.
\<close>

definition normalizeCase :: "(jsstring \<Rightarrow> jsstring) \<Rightarrow> bool \<Rightarrow> jsstring \<Rightarrow> jsstring" where
  "normalizeCase lower caseSens s = (if caseSens then s else lower s)"

text \<open>
  The character class \<open>[\s,\<dots>.]\<close> of the splitting pattern: the white space and line
  terminators matched by \<open>\s\<close>, the ASCII comma and full stop, the full-width comma
  U+FF0C and the ideographic full stop U+3002.
\<close>

definition isWhiteSpace :: "jschar \<Rightarrow> bool" where
  "isWhiteSpace c \<longleftrightarrow>
     (0x0009 \<le> c \<and> c \<le> 0x000D) \<or> c = 0x0020 \<or> c = 0x00A0 \<or> c = 0x1680 \<or>
     (0x2000 \<le> c \<and> c \<le> 0x200A) \<or> c = 0x2028 \<or> c = 0x2029 \<or> c = 0x202F \<or>
     c = 0x205F \<or> c = 0x3000 \<or> c = 0xFEFF"

definition isDelimiter :: "jschar \<Rightarrow> bool" where
  "isDelimiter c \<longleftrightarrow> isWhiteSpace c \<or> c = 0x002C \<or> c = 0xFF0C \<or> c = 0x3002 \<or> c = 0x002E"

text \<open>
  \<open>s.split(/[\s,\<dots>.]+/).filter((word) => word.length > 0)\<close>: the maximal runs of
  code units that are not delimiters. \<open>acc\<close> is the current run, reversed.
\<close>

fun splitRuns :: "jsstring \<Rightarrow> jsstring \<Rightarrow> jsstring list" where
  "splitRuns acc [] = (if acc = [] then [] else [rev acc])"
| "splitRuns acc (c # s) =
     (if isDelimiter c then (if acc = [] then splitRuns [] s else rev acc # splitRuns [] s)
      else splitRuns (c # acc) s)"

definition splitWords :: "jsstring \<Rightarrow> jsstring list" where
  "splitWords s = splitRuns [] s"

section \<open>Heuristic scorers\<close>

text \<open>\<open>s.includes(t)\<close> and \<open>s.startsWith(t)\<close>.\<close>

fun includesStr :: "jsstring \<Rightarrow> jsstring \<Rightarrow> bool" where
  "includesStr [] t = (t = [])"
| "includesStr (c # s) t = (prefix t (c # s) \<or> includesStr s t)"

definition startsWith :: "jsstring \<Rightarrow> jsstring \<Rightarrow> bool" where
  "startsWith s t = prefix t s"

text \<open>\<open>xs.indexOf(x)\<close>: the first index of \<open>x\<close>, or \<open>-1\<close>.\<close>

fun indexOf :: "'a list \<Rightarrow> 'a \<Rightarrow> int" where
  "indexOf [] x = - 1"
| "indexOf (y # ys) x =
     (if y = x then 0 else (let r = indexOf ys x in if r = - 1 then - 1 else r + 1))"

text \<open>
  \<open>new Set(xs)\<close>: the distinct elements in insertion order (the first occurrence of
  each is kept). Only its size and membership are used.
\<close>

definition newSet :: "'a list \<Rightarrow> 'a list" where
  "newSet xs = rev (remdups (rev xs))"

text \<open>
  Iterating a string (\<open>new Set(str)\<close>, \<open>for (const ch of str)\<close>) yields code points: a
  high surrogate followed by a low surrogate is one element of two code units.
  \<open>str.split('')\<close> yields the code units one by one.
\<close>

definition isHighSurrogate :: "jschar \<Rightarrow> bool" where
  "isHighSurrogate c \<longleftrightarrow> 0xD800 \<le> c \<and> c \<le> 0xDBFF"

definition isLowSurrogate :: "jschar \<Rightarrow> bool" where
  "isLowSurrogate c \<longleftrightarrow> 0xDC00 \<le> c \<and> c \<le> 0xDFFF"

fun codePoints :: "jsstring \<Rightarrow> jsstring list" where
  "codePoints [] = []"
| "codePoints [c] = [[c]]"
| "codePoints (c # d # s) =
     (if isHighSurrogate c \<and> isLowSurrogate d then [c, d] # codePoints s
      else [c] # codePoints (d # s))"

definition splitChars :: "jsstring \<Rightarrow> jsstring list" where
  "splitChars s = map (\<lambda>c. [c]) s"

definition calculateCharSimilarityOptimized :: "jsstring \<Rightarrow> jsstring \<Rightarrow> real" where
  "calculateCharSimilarityOptimized str1 str2 =
     (if str1 = [] \<or> str2 = [] then 0
      else if str1 = str2 then 1
      else
        (let chars1 = newSet (codePoints str1);
             chars2 = newSet (codePoints str2);
             intersection = fold (\<lambda>ch n. if ch \<in> set chars2 then n + 1 else n) chars1 (0::nat);
             union = int (length chars1) + int (length chars2) - int intersection
         in if union > 0 then real intersection / real_of_int union else 0))"

definition calculateSubstringMatch :: "jsstring \<Rightarrow> jsstring \<Rightarrow> real" where
  "calculateSubstringMatch target search =
     (if target = [] \<or> search = [] then 0
      else if includesStr target search then real (length search) / real (length target)
      else if includesStr search target then real (length target) / real (length search)
      else 0)"

text \<open>The loop of calculateCommonPrefix, with its \<open>break\<close>.\<close>

function commonPrefixLoop :: "jsstring \<Rightarrow> jsstring \<Rightarrow> nat \<Rightarrow> nat \<Rightarrow> nat \<Rightarrow> nat" where
  "commonPrefixLoop str1 str2 minLength i commonLength =
     (if i < minLength then
        (if charAt str1 i = charAt str2 i
         then commonPrefixLoop str1 str2 minLength (i + 1) (commonLength + 1)
         else commonLength)
      else commonLength)"
  by pat_completeness auto
termination
  by (relation "measure (\<lambda>(str1, str2, minLength, i, commonLength). minLength - i)") auto

declare commonPrefixLoop.simps [simp del]

definition calculateCommonPrefix :: "jsstring \<Rightarrow> jsstring \<Rightarrow> real" where
  "calculateCommonPrefix str1 str2 =
     (if str1 = [] \<or> str2 = [] then 0
      else
        (let minLength = min (length str1) (length str2);
             commonLength = commonPrefixLoop str1 str2 minLength 0 0
         in if commonLength = 0 then 0
            else real commonLength / real (max (length str1) (length str2))))"

text \<open>The inner loop of calculateContinuousMatch (over \<open>j\<close>, with its \<open>break\<close>).\<close>

function continuousRun :: "jsstring \<Rightarrow> jsstring \<Rightarrow> nat \<Rightarrow> nat \<Rightarrow> nat \<Rightarrow> nat" where
  "continuousRun target search i j currentContinuousLength =
     (if j < length search then
        (if charAt target (i + j) = charAt search j
         then continuousRun target search i (j + 1) (currentContinuousLength + 1)
         else currentContinuousLength)
      else currentContinuousLength)"
  by pat_completeness auto
termination
  by (relation "measure (\<lambda>(target, search, i, j, n). length search - j)") auto

declare continuousRun.simps [simp del]

text \<open>
  The outer loop runs \<open>i\<close> from 0 while \<open>i <= target.length - search.length\<close>; the bound
  is negative, and the loop empty, when \<open>search\<close> is the longer string.
\<close>

definition calculateContinuousMatch :: "jsstring \<Rightarrow> jsstring \<Rightarrow> real" where
  "calculateContinuousMatch target search =
     (if target = [] \<or> search = [] then 0
      else
        (let maxContinuousLength =
               fold (\<lambda>i m. max m (continuousRun target search i 0 0))
                 [0..<nat (int (length target) - int (length search) + 1)] 0
         in if maxContinuousLength = 0 then 0
            else
              (let continuousRatio = real maxContinuousLength / real (length search);
                   lengthRatio = real maxContinuousLength / real (max (length target) (length search))
               in continuousRatio * (7 / 10) + lengthRatio * (3 / 10))))"

definition calculateChineseWordMatch :: "jsstring \<Rightarrow> jsstring \<Rightarrow> real" where
  "calculateChineseWordMatch target search =
     (if target = [] \<or> search = [] then 0
      else
        (let targetChars = splitChars target;
             searchChars = splitChars search;
             totalSearchChars = length searchChars;
             matchCount = fold (\<lambda>searchChar n. if searchChar \<in> set targetChars then n + 1 else n)
                            searchChars (0::nat)
         in if matchCount = 0 then 0
            else
              (let matchRatio = real matchCount / real totalSearchChars;
                   consecutiveMatches =
                     fold (\<lambda>i n.
                             (let searchChar = searchChars ! i;
                                  targetIndex = indexOf targetChars searchChar
                              in if targetIndex \<noteq> - 1 then
                                   (if i = 0 \<or> targetIndex > indexOf targetChars (searchChars ! (i - 1))
                                    then n + 1 else n)
                                 else n))
                          [0..<length searchChars] (0::nat);
                   orderBonus = real consecutiveMatches / real totalSearchChars
               in matchRatio * (8 / 10) + orderBonus * (2 / 10))))"

definition calculateCharSimilarity :: "jsstring \<Rightarrow> jsstring \<Rightarrow> real" where
  "calculateCharSimilarity str1 str2 =
     (if str1 = [] \<or> str2 = [] then 0
      else
        (let chars1 = newSet (splitChars str1);
             chars2 = newSet (splitChars str2);
             intersection = newSet (filter (\<lambda>x. x \<in> set chars2) chars1);
             union = newSet (chars1 @ chars2)
         in if length union > 0 then real (length intersection) / real (length union) else 0))"

definition calculateLengthSimilarity :: "jsstring \<Rightarrow> jsstring \<Rightarrow> real" where
  "calculateLengthSimilarity str1 str2 =
     (if str1 = [] \<or> str2 = [] then 0
      else
        (let len1 = length str1; len2 = length str2
         in if len1 = 0 \<and> len2 = 0 then 1
            else if len1 = 0 \<or> len2 = 0 then 0
            else real (min len1 len2) / real (max len1 len2)))"


section \<open>Data model\<close>

text \<open>
  Numbers of the source are IEEE doubles; scores and weights are modelled as reals
  (exact arithmetic, no NaN or infinity), distances and \<open>maxEditDistance\<close> as integers.
\<close>

record WeightConfig =
  exactMatch :: real
  prefixMatch :: real
  containsMatch :: real
  charSimilarity :: real
  lengthSimilarity :: real
  wordBoundary :: real
  substringMatch :: real
  commonPrefix :: real

definition DEFAULT_WEIGHT_CONFIG :: WeightConfig where
  "DEFAULT_WEIGHT_CONFIG =
     \<lparr> exactMatch = 1, prefixMatch = 8 / 10, containsMatch = 6 / 10, charSimilarity = 4 / 10,
       lengthSimilarity = 2 / 10, wordBoundary = 7 / 10, substringMatch = 9 / 10,
       commonPrefix = 85 / 100 \<rparr>"

text \<open>
  \<open>Partial<WeightConfig>\<close>: each weight is present or absent. Its fields carry the
  suffix \<open>P\<close>, and those of MatchDetails below the suffix \<open>D\<close>, since the source uses
  the names of WeightConfig for them again.
\<close>

record PartialWeightConfig =
  exactMatchP :: "real option"
  prefixMatchP :: "real option"
  containsMatchP :: "real option"
  charSimilarityP :: "real option"
  lengthSimilarityP :: "real option"
  wordBoundaryP :: "real option"
  substringMatchP :: "real option"
  commonPrefixP :: "real option"

definition emptyWeights :: PartialWeightConfig where
  "emptyWeights =
     \<lparr> exactMatchP = None, prefixMatchP = None, containsMatchP = None, charSimilarityP = None,
       lengthSimilarityP = None, wordBoundaryP = None, substringMatchP = None,
       commonPrefixP = None \<rparr>"

text \<open>\<open>{ ...DEFAULT_WEIGHT_CONFIG, ...userWeightConfig }\<close>\<close>

definition mergeWeights :: "WeightConfig \<Rightarrow> PartialWeightConfig \<Rightarrow> WeightConfig" where
  "mergeWeights d u =
     \<lparr> exactMatch = (case exactMatchP u of None \<Rightarrow> exactMatch d | Some v \<Rightarrow> v),
       prefixMatch = (case prefixMatchP u of None \<Rightarrow> prefixMatch d | Some v \<Rightarrow> v),
       containsMatch = (case containsMatchP u of None \<Rightarrow> containsMatch d | Some v \<Rightarrow> v),
       charSimilarity = (case charSimilarityP u of None \<Rightarrow> charSimilarity d | Some v \<Rightarrow> v),
       lengthSimilarity = (case lengthSimilarityP u of None \<Rightarrow> lengthSimilarity d | Some v \<Rightarrow> v),
       wordBoundary = (case wordBoundaryP u of None \<Rightarrow> wordBoundary d | Some v \<Rightarrow> v),
       substringMatch = (case substringMatchP u of None \<Rightarrow> substringMatch d | Some v \<Rightarrow> v),
       commonPrefix = (case commonPrefixP u of None \<Rightarrow> commonPrefix d | Some v \<Rightarrow> v) \<rparr>"

text \<open>SearchOptions: every field is optional.\<close>

record SearchOptions =
  minScore :: "real option"
  caseSensitive :: "bool option"
  weightConfig :: "PartialWeightConfig option"
  enableCache :: "bool option"
  maxEditDistance :: "int option"

definition noOptions :: SearchOptions where
  "noOptions = \<lparr> minScore = None, caseSensitive = None, weightConfig = None,
                  enableCache = None, maxEditDistance = None \<rparr>"

text \<open>The destructuring of \<open>options\<close> with its defaults.\<close>

definition optMinScore :: "SearchOptions \<Rightarrow> real" where
  "optMinScore options = (case minScore options of None \<Rightarrow> 3 / 10 | Some v \<Rightarrow> v)"

definition optCaseSensitive :: "SearchOptions \<Rightarrow> bool" where
  "optCaseSensitive options = (case caseSensitive options of None \<Rightarrow> False | Some v \<Rightarrow> v)"

definition optWeightConfig :: "SearchOptions \<Rightarrow> WeightConfig" where
  "optWeightConfig options =
     mergeWeights DEFAULT_WEIGHT_CONFIG
       (case weightConfig options of None \<Rightarrow> emptyWeights | Some u \<Rightarrow> u)"

definition optEnableCache :: "SearchOptions \<Rightarrow> bool" where
  "optEnableCache options = (case enableCache options of None \<Rightarrow> True | Some v \<Rightarrow> v)"

definition optMaxEditDistance :: "SearchOptions \<Rightarrow> int" where
  "optMaxEditDistance options = (case maxEditDistance options of None \<Rightarrow> 10 | Some v \<Rightarrow> v)"

text \<open>
  A field value is any value of the host language. The program only tests its
  truthiness and converts it with \<open>String(\<dots>)\<close>: a string is truthy unless empty;
  any other value is given by its truthiness and its string image (\<open>undefined\<close>, \<open>null\<close>,
  \<open>0\<close>, \<open>NaN\<close> and \<open>false\<close> are falsy; the empty array is truthy with image \<open>""\<close>).
\<close>

datatype jsval = JStr jsstring | JOther bool jsstring

fun truthy :: "jsval \<Rightarrow> bool" where
  "truthy (JStr s) = (s \<noteq> [])"
| "truthy (JOther b s) = b"

fun toStr :: "jsval \<Rightarrow> jsstring" where
  "toStr (JStr s) = s"
| "toStr (JOther b s) = s"

text \<open>An item is a record read by key; a missing key reads as \<open>undefined\<close>.\<close>

type_synonym SearchableItem = "jsstring \<Rightarrow> jsval"

definition undefined_val :: jsval where
  "undefined_val = JOther False (utf16 ''undefined'')"

record MatchDetails =
  exactMatchD :: bool
  prefixMatchD :: bool
  containsMatchD :: bool
  charSimilarityD :: real
  lengthSimilarityD :: real
  editSimilarityD :: real
  wordMatchesD :: "nat option"

record SearchResult =
  item :: SearchableItem
  score :: real
  details :: MatchDetails

type_synonym cache = "jsstring \<rightharpoonup> real"


section \<open>smartFuzzySearch\<close>

text \<open>The result of the two early returns with score 0.\<close>

definition zeroDetails :: "nat option \<Rightarrow> MatchDetails" where
  "zeroDetails wm =
     \<lparr> exactMatchD = False, prefixMatchD = False, containsMatchD = False, charSimilarityD = 0,
       lengthSimilarityD = 0, editSimilarityD = 0, wordMatchesD = wm \<rparr>"

definition zeroResult :: "SearchableItem \<Rightarrow> SearchResult" where
  "zeroResult it = \<lparr> item = it, score = 0, details = zeroDetails None \<rparr>"

text \<open>The result of an exact match.\<close>

definition exactResult :: "WeightConfig \<Rightarrow> SearchableItem \<Rightarrow> SearchResult" where
  "exactResult w it =
     \<lparr> item = it, score = exactMatch w,
       details = \<lparr> exactMatchD = True, prefixMatchD = True, containsMatchD = True,
                   charSimilarityD = 1, lengthSimilarityD = 1, editSimilarityD = 1,
                   wordMatchesD = None \<rparr> \<rparr>"

text \<open>
  \<open>searchWords.filter((searchWord) => fieldWords.some((fieldWord) =>
     fieldWord.includes(searchWord) || searchWord.includes(fieldWord))).length\<close>
\<close>

definition wordMatches :: "jsstring list \<Rightarrow> jsstring list \<Rightarrow> nat" where
  "wordMatches searchWords fieldWords =
     length (filter (\<lambda>searchWord.
               list_ex (\<lambda>fieldWord. includesStr fieldWord searchWord \<or> includesStr searchWord fieldWord)
                 fieldWords) searchWords)"

definition cacheKey :: "jsstring \<Rightarrow> jsstring \<Rightarrow> jsstring" where
  "cacheKey nf ns = utf16 ''char_'' @ nf @ utf16 ''_'' @ ns"

text \<open>
  The running maximum \<open>maxScore\<close> over the heuristics before the edit distance (prefix,
  contains, substring, common prefix, word boundary, character similarity, continuous
  run, word overlap, length), in the order of the source. \<open>charSim\<close> is the character
  similarity, which the caller computes or takes from the cache.
\<close>

definition heuristicScore ::
  "WeightConfig \<Rightarrow> jsstring list \<Rightarrow> jsstring list \<Rightarrow> jsstring \<Rightarrow> jsstring \<Rightarrow> real \<Rightarrow> real" where
  "heuristicScore w searchWords fieldWords nf ns charSim =
     (let maxScore0 = 0;
          maxScore1 = (if startsWith nf ns \<or> startsWith ns nf
                       then max maxScore0 (prefixMatch w) else maxScore0);
          maxScore2 = (if includesStr nf ns \<or> includesStr ns nf
                       then max maxScore1 (containsMatch w) else maxScore1);
          substringScore = calculateSubstringMatch nf ns;
          maxScore3 = (if substringScore > 0
                       then max maxScore2 (substringScore * substringMatch w) else maxScore2);
          commonPrefixScore = calculateCommonPrefix nf ns;
          maxScore4 = (if commonPrefixScore > 0
                       then max maxScore3 (commonPrefixScore * commonPrefix w) else maxScore3);
          maxScore5 = (if length searchWords > 0 then
                         (let searchWordMatches = wordMatches searchWords fieldWords
                          in if searchWordMatches > 0
                             then max maxScore4
                                    (real searchWordMatches / real (length searchWords) * wordBoundary w)
                             else maxScore4)
                       else maxScore4);
          charScore = charSim * charSimilarity w;
          maxScore6 = max maxScore5 charScore;
          continuousMatchScore = calculateContinuousMatch nf ns;
          maxScore7 = (if continuousMatchScore > 0
                       then max maxScore6 (continuousMatchScore * charSimilarity w * (12 / 10))
                       else maxScore6);
          chineseWordMatchScore = calculateChineseWordMatch nf ns;
          maxScore8 = (if chineseWordMatchScore > 0
                       then max maxScore7 (chineseWordMatchScore * charSimilarity w * (15 / 10))
                       else maxScore7);
          lengthScore = calculateLengthSimilarity nf ns * lengthSimilarity w
      in max maxScore8 lengthScore)"

text \<open>
  The conditional edit-distance block. It returns the four variables it may assign:
  \<open>(maxScore, editScore, editDistance, maxLength)\<close>.
\<close>

definition editStage ::
  "WeightConfig \<Rightarrow> real \<Rightarrow> int \<Rightarrow> jsstring \<Rightarrow> jsstring \<Rightarrow> real \<Rightarrow> real \<times> real \<times> int \<times> nat" where
  "editStage w minScore' maxEditDistance' nf ns maxScore =
     (if maxScore < minScore' then
        (let editDistance = calculateEditDistanceOptimized nf ns maxEditDistance'
         in if editDistance \<le> maxEditDistance' then
              (let maxLength = max (length nf) (length ns);
                   editSimilarity = (if maxLength > 0
                                     then (real maxLength - real_of_int editDistance) / real maxLength
                                     else 0);
                   editScore = editSimilarity * charSimilarity w * (5 / 10)
               in (max maxScore editScore, editScore, editDistance, maxLength))
            else (maxScore, 0, editDistance, 0))
      else (maxScore, 0, 0, 0))"

text \<open>
  The end of the callback of \<open>list.map\<close>: the edit-distance block and the returned
  record. \<open>maxScore\<close> is the running maximum on entry to the block, \<open>charSim\<close> and
  \<open>lengthSim\<close> the two similarities reported in the details.
\<close>

definition finishCandidate ::
  "SearchOptions \<Rightarrow> SearchableItem \<Rightarrow> jsstring \<Rightarrow> jsstring \<Rightarrow> real \<Rightarrow> real \<Rightarrow> real \<Rightarrow> SearchResult" where
  "finishCandidate options it nf ns charSim lengthSim maxScore =
     (let w = optWeightConfig options;
          (maxScore', editScore, editDistance, maxLength) =
             editStage w (optMinScore options) (optMaxEditDistance options) nf ns maxScore
      in \<lparr> item = it, score = maxScore',
           details =
             \<lparr> exactMatchD = (nf = ns),
               prefixMatchD = (startsWith nf ns \<or> startsWith ns nf),
               containsMatchD = (includesStr nf ns \<or> includesStr ns nf),
               charSimilarityD = charSim,
               lengthSimilarityD = lengthSim,
               editSimilarityD =
                 (if editScore > 0
                  then (real maxLength - real_of_int editDistance) / real maxLength
                  else 0),
               wordMatchesD = None \<rparr> \<rparr>)"

text \<open>
  The last part of the callback of \<open>list.map\<close>: from the character similarity to the
  returned record, for a candidate that is not an exact match.
\<close>

definition scoredResult ::
  "SearchOptions \<Rightarrow> jsstring list \<Rightarrow> SearchableItem \<Rightarrow> jsstring \<Rightarrow> jsstring \<Rightarrow> real \<Rightarrow> SearchResult" where
  "scoredResult options searchWords it nf ns charSim =
     (let w = optWeightConfig options;
          fieldWords = splitWords nf;
          maxScore = heuristicScore w searchWords fieldWords nf ns charSim;
          lengthSim = calculateLengthSimilarity nf ns
      in finishCandidate options it nf ns charSim lengthSim maxScore)"

text \<open>
  The callback of \<open>list.map\<close>, with the cache passed in and out. \<open>ns\<close> is the normalized
  search term and \<open>nf\<close> the normalized field value. With the cache enabled, the
  character similarity is read from the cache when the key is present (\<open>?? 0\<close> is the
  fallback of the source for a missing value), and stored otherwise.
\<close>

definition scoreItem ::
  "(jsstring \<Rightarrow> jsstring) \<Rightarrow> jsstring \<Rightarrow> SearchOptions \<Rightarrow> jsstring \<Rightarrow> jsstring list \<Rightarrow>
   SearchableItem \<Rightarrow> cache \<Rightarrow> SearchResult \<times> cache" where
  "scoreItem lower field options ns searchWords it cache =
     (let fieldValue = it field
      in if \<not> truthy fieldValue then (zeroResult it, cache)
         else
           (let fieldValueStr = toStr fieldValue;
                nf = normalizeCase lower (optCaseSensitive options) fieldValueStr;
                lengthDiff = \<bar>int (length nf) - int (length ns)\<bar>
            in if lengthDiff > optMaxEditDistance options * 2 then (zeroResult it, cache)
               else if nf = ns then (exactResult (optWeightConfig options) it, cache)
               else
                 (let key = cacheKey nf ns;
                      hit = (optEnableCache options \<and> cache key \<noteq> None);
                      charSim = (if hit then (case cache key of Some v \<Rightarrow> v | None \<Rightarrow> 0)
                                 else calculateCharSimilarityOptimized nf ns);
                      cache' = (if \<not> hit \<and> optEnableCache options
                                then cache(key \<mapsto> charSim) else cache)
                  in (scoredResult options searchWords it nf ns charSim, cache'))))"

text \<open>\<open>list.map\<close> with a callback that reads and writes the cache.\<close>

fun mapWithCache :: "('a \<Rightarrow> cache \<Rightarrow> 'b \<times> cache) \<Rightarrow> 'a list \<Rightarrow> cache \<Rightarrow> 'b list \<times> cache" where
  "mapWithCache f [] c = ([], c)"
| "mapWithCache f (x # xs) c =
     (let (r, c') = f x c; (rs, c'') = mapWithCache f xs c' in (r # rs, c''))"

definition scoredItems ::
  "(jsstring \<Rightarrow> jsstring) \<Rightarrow> jsstring \<Rightarrow> SearchOptions \<Rightarrow> jsstring \<Rightarrow> SearchableItem list \<Rightarrow>
   SearchResult list" where
  "scoredItems lower field options ns list =
     fst (mapWithCache (scoreItem lower field options ns (splitWords ns)) list Map.empty)"

text \<open>
  \<open>filter\<close> by the threshold, then \<open>sort((a, b) => b.score - a.score)\<close>: descending by
  score, and stable (the build targets ES2020, where \<open>Array.prototype.sort\<close> is stable).
\<close>

definition rank :: "real \<Rightarrow> SearchResult list \<Rightarrow> SearchResult list" where
  "rank minScore' rs = sort_key (\<lambda>r. - score r) (filter (\<lambda>r. score r \<ge> minScore') rs)"

text \<open>
  The entry point. \<open>list\<close> is \<open>None\<close> when it is missing or not an array; \<open>field\<close> is
  \<open>None\<close> when it is \<open>undefined\<close> or \<open>null\<close>, and the empty key is falsy as well. The
  result \<open>None\<close> is \<open>null\<close>.
\<close>

definition smartFuzzySearch ::
  "(jsstring \<Rightarrow> jsstring) \<Rightarrow> SearchableItem list option \<Rightarrow> jsstring option \<Rightarrow> jsstring \<Rightarrow>
   SearchOptions \<Rightarrow> SearchableItem option" where
  "smartFuzzySearch lower list field searchTerm options =
     (case list of
        None \<Rightarrow> None
      | Some items \<Rightarrow>
         (case field of
            None \<Rightarrow> None
          | Some fieldKey \<Rightarrow>
              if fieldKey = [] \<or> searchTerm = [] then None
              else
                (let normalizedSearchTerm = normalizeCase lower (optCaseSensitive options) searchTerm
                 in if length normalizedSearchTerm < 2 then None
                    else
                      (case rank (optMinScore options)
                              (scoredItems lower fieldKey options normalizedSearchTerm items) of
                         [] \<Rightarrow> None
                       | r # rs \<Rightarrow> Some (item r)))))"

section \<open>smartFuzzySearchAll\<close>

text \<open>\<open>totalScore += s; maxScore = Math.max(maxScore, s)\<close> on the pair \<open>(totalScore, maxScore)\<close>.\<close>

definition accumulate :: "real \<Rightarrow> real \<times> real \<Rightarrow> real \<times> real" where
  "accumulate s tm = (fst tm + s, max (snd tm) s)"

text \<open>
  The sub-scores that the callback accumulates, in the order of the source: the exact,
  prefix, contains and word-boundary scores only when they apply; the character,
  length and edit scores always.
\<close>

definition subScores :: "WeightConfig \<Rightarrow> jsstring list \<Rightarrow> jsstring list \<Rightarrow> jsstring \<Rightarrow> jsstring \<Rightarrow> real list" where
  "subScores w searchWords fieldWords nf ns =
     (if nf = ns then [exactMatch w] else []) @
     (if startsWith nf ns \<or> startsWith ns nf then [prefixMatch w] else []) @
     (if includesStr nf ns \<or> includesStr ns nf then [containsMatch w] else []) @
     (let searchWordMatches = wordMatches searchWords fieldWords
      in if searchWordMatches > 0
         then [real searchWordMatches / real (length searchWords) * wordBoundary w] else []) @
     [calculateCharSimilarity nf ns * charSimilarity w,
      calculateLengthSimilarity nf ns * lengthSimilarity w,
      (let editDistance = calculateEditDistance nf ns;
           maxLength = max (length nf) (length ns);
           editSimilarity = (if maxLength > 0
                             then (real maxLength - real_of_int editDistance) / real maxLength
                             else 0)
       in editSimilarity * charSimilarity w * (5 / 10))]"

definition scoreItemAll ::
  "(jsstring \<Rightarrow> jsstring) \<Rightarrow> jsstring \<Rightarrow> SearchOptions \<Rightarrow> jsstring \<Rightarrow> jsstring list \<Rightarrow>
   SearchableItem \<Rightarrow> SearchResult" where
  "scoreItemAll lower field options ns searchWords it =
     (let w = optWeightConfig options;
          fieldValue = it field
      in if \<not> truthy fieldValue
         then \<lparr> item = it, score = 0, details = zeroDetails (Some 0) \<rparr>
         else
           (let fieldValueStr = toStr fieldValue;
                nf = normalizeCase lower (optCaseSensitive options) fieldValueStr;
                fieldWords = splitWords nf;
                (totalScore, maxScore) = fold accumulate (subScores w searchWords fieldWords nf ns) (0, 0);
                editDistance = calculateEditDistance nf ns;
                maxLength = max (length nf) (length ns)
            in \<lparr> item = it, score = maxScore,
                 details =
                   \<lparr> exactMatchD = (nf = ns),
                     prefixMatchD = (startsWith nf ns \<or> startsWith ns nf),
                     containsMatchD = (includesStr nf ns \<or> includesStr ns nf),
                     charSimilarityD = calculateCharSimilarity nf ns,
                     lengthSimilarityD = calculateLengthSimilarity nf ns,
                     editSimilarityD =
                       (if maxLength > 0
                        then (real maxLength - real_of_int editDistance) / real maxLength else 0),
                     wordMatchesD = Some (wordMatches searchWords fieldWords) \<rparr> \<rparr>))"

definition scoredItemsAll ::
  "(jsstring \<Rightarrow> jsstring) \<Rightarrow> jsstring \<Rightarrow> SearchOptions \<Rightarrow> jsstring \<Rightarrow> SearchableItem list \<Rightarrow>
   SearchResult list" where
  "scoredItemsAll lower field options ns list =
     map (scoreItemAll lower field options ns (splitWords ns)) list"

definition smartFuzzySearchAll ::
  "(jsstring \<Rightarrow> jsstring) \<Rightarrow> SearchableItem list option \<Rightarrow> jsstring option \<Rightarrow> jsstring \<Rightarrow>
   SearchOptions \<Rightarrow> SearchableItem list" where
  "smartFuzzySearchAll lower list field searchTerm options =
     (case list of
        None \<Rightarrow> []
      | Some items \<Rightarrow>
         (case field of
            None \<Rightarrow> []
          | Some fieldKey \<Rightarrow>
              if fieldKey = [] \<or> searchTerm = [] then []
              else
                (let normalizedSearchTerm = normalizeCase lower (optCaseSensitive options) searchTerm
                 in map item (rank (optMinScore options)
                       (scoredItemsAll lower fieldKey options normalizedSearchTerm items)))))"


section \<open>Auxiliary definitions\<close>

text \<open>
  The cache holds only character similarities of this call: every entry is stored under
  the key of some field value and is the similarity of that value and the search term.
\<close>

definition cacheOK :: "jsstring \<Rightarrow> cache \<Rightarrow> bool" where
  "cacheOK ns c \<longleftrightarrow>
     (\<forall>k v. c k = Some v \<longrightarrow> (\<exists>nf. k = cacheKey nf ns \<and> v = calculateCharSimilarityOptimized nf ns))"

text \<open>The result of the callback for one candidate, started on an empty cache.\<close>

definition scoreCandidate ::
  "(jsstring \<Rightarrow> jsstring) \<Rightarrow> jsstring \<Rightarrow> SearchOptions \<Rightarrow> jsstring \<Rightarrow> SearchableItem \<Rightarrow> SearchResult" where
  "scoreCandidate lower field options ns it =
     fst (scoreItem lower field options ns (splitWords ns) it Map.empty)"

text \<open>
  The running maximum of a candidate of smartFuzzySearch after the heuristics that come
  before the edit distance: \<open>maxScore\<close> on entry to the edit-distance block.
\<close>

definition runningMax :: "SearchOptions \<Rightarrow> jsstring \<Rightarrow> jsstring \<Rightarrow> real" where
  "runningMax options nf ns =
     heuristicScore (optWeightConfig options) (splitWords ns) (splitWords nf) nf ns
       (calculateCharSimilarityOptimized nf ns)"

text \<open>
  For examples: a lower-casing function that agrees with the platform's \<open>toLowerCase\<close> on
  strings of ASCII characters and U+0130 (LATIN CAPITAL LETTER I WITH DOT ABOVE). The
  lower case of U+0130 in the Unicode default case conversion is the two code units
  U+0069 U+0307.
\<close>

definition lowerSample :: "jsstring \<Rightarrow> jsstring" where
  "lowerSample s =
     concat (map (\<lambda>c. if 0x41 \<le> c \<and> c \<le> 0x5A then [c + 0x20]
                       else if c = 0x130 then [0x69, 0x307] else [c]) s)"

text \<open>For examples: the item \<open>{ name: v }\<close>.\<close>

definition named :: "jsval \<Rightarrow> SearchableItem" where
  "named v = (\<lambda>k. if k = utf16 ''name'' then v else undefined_val)"

section \<open>Properties of the edit-distance engines\<close>

subsection \<open>The recurrence\<close>

lemma lev_Nil2: "lev xs [] = int (length xs)"
  by (cases xs) simp_all

lemma lev_sym: "lev xs ys = lev ys xs"
  by (induction xs ys rule: lev.induct) (auto simp: lev_Nil2 min.commute min.left_commute)

lemma prefixDist_0_right: "prefixDist s1 s2 i 0 = int (min i (length s1))"
  by (simp add: prefixDist_def lev_Nil2 min.commute)

lemma prefixDist_0_left: "prefixDist s1 s2 0 j = int (min j (length s2))"
  by (simp add: prefixDist_def min.commute)

lemma prefixDist_Suc:
  assumes "i < length s1" "j < length s2"
  shows "prefixDist s1 s2 (Suc i) (Suc j) =
    (if s1 ! i = s2 ! j then prefixDist s1 s2 i j
     else min (prefixDist s1 s2 i j + 1)
            (min (prefixDist s1 s2 (Suc i) j + 1) (prefixDist s1 s2 i (Suc j) + 1)))"
  using assms by (simp add: prefixDist_def take_Suc_conv_app_nth)

lemma prefixDist_sym: "prefixDist s1 s2 i j = prefixDist s2 s1 j i"
  by (simp add: prefixDist_def lev_sym)

lemma prefixDist_full: "prefixDist s1 s2 (length s1) (length s2) = lev (rev s1) (rev s2)"
  by (simp add: prefixDist_def)


lemma nth_map_upt0: "k \<le> n \<Longrightarrow> map f [0..<n + 1] ! k = f k"
  by (simp del: upt_Suc)

lemma fillRow_prefix:
  assumes i: "i < length s1" and prev: "prev = map (prefixDist s1 s2 i) [0..<length s2 + 1]"
    and len: "length cur = length s2 + 1" and n: "n \<le> length s2"
  shows "length (fold (\<lambda>j c. c[j := rowCell s1 s2 (Suc i) j prev c]) [1..<n + 1] (cur[0 := int (Suc i)])) = length s2 + 1
       \<and> (\<forall>k \<le> n. fold (\<lambda>j c. c[j := rowCell s1 s2 (Suc i) j prev c]) [1..<n + 1] (cur[0 := int (Suc i)]) ! k
              = prefixDist s1 s2 (Suc i) k)"
  using n
proof (induction n)
  case 0
  with i len show ?case by (simp add: prefixDist_0_right)
next
  case (Suc n)
  let ?f = "\<lambda>j c. c[j := rowCell s1 s2 (Suc i) j prev c]"
  let ?r = "fold ?f [1..<n + 1] (cur[0 := int (Suc i)])"
  from Suc have IH: "length ?r = length s2 + 1" "\<And>k. k \<le> n \<Longrightarrow> ?r ! k = prefixDist s1 s2 (Suc i) k"
    and n: "n < length s2" by auto
  have step: "fold ?f [1..<Suc n + 1] (cur[0 := int (Suc i)]) = ?r[Suc n := rowCell s1 s2 (Suc i) (Suc n) prev ?r]"
    by simp
  have p1: "prev ! n = prefixDist s1 s2 i n" and p2: "prev ! Suc n = prefixDist s1 s2 i (Suc n)"
    using n prev by (simp_all add: nth_map_upt0 del: upt_Suc)
  have cellv: "rowCell s1 s2 (Suc i) (Suc n) prev ?r = prefixDist s1 s2 (Suc i) (Suc n)"
    using i n IH(2)[of n] p1 p2
    by (simp add: rowCell_def charAt_def prefixDist_Suc)
  show ?case
    unfolding step using IH n cellv
    by (auto simp: nth_list_update le_Suc_eq)
qed

lemma fillRow_distRow:
  assumes "i < length s1" "prev = distRow s1 s2 i" "length cur = length s2 + 1"
  shows "fillRow s1 s2 (Suc i) prev cur = distRow s1 s2 (Suc i)"
proof (rule nth_equalityI)
  note P = fillRow_prefix[OF assms(1) assms(2)[unfolded distRow_def] assms(3) order_refl]
  show "length (fillRow s1 s2 (Suc i) prev cur) = length (distRow s1 s2 (Suc i))"
    using P by (simp add: fillRow_def distRow_def)
  fix k assume "k < length (fillRow s1 s2 (Suc i) prev cur)"
  then have "k \<le> length s2" using P by (simp add: fillRow_def)
  then show "fillRow s1 s2 (Suc i) prev cur ! k = distRow s1 s2 (Suc i) ! k"
    using P by (simp add: fillRow_def distRow_def nth_map_upt0 del: upt_Suc)
qed


lemma lev_Cons_lower: "\<exists>k \<le> length ys. lev xs (drop k ys) \<le> lev (x # xs) ys"
proof (induction ys)
  case Nil
  show ?case by (simp add: lev_Nil2)
next
  case (Cons y ys)
  then obtain k where k: "k \<le> length ys" "lev xs (drop k ys) \<le> lev (x # xs) ys" by blast
  show ?case
  proof (cases "x = y")
    case True
    have "lev xs (drop 1 (y # ys)) \<le> lev (x # xs) (y # ys)" using True by simp
    then show ?thesis by (intro exI[of _ 1]) simp
  next
    case False
    let ?v = "lev (x # xs) (y # ys)"
    from False have "?v = lev xs ys + 1 \<or> ?v = lev (x # xs) ys + 1 \<or> ?v = lev xs (y # ys) + 1"
      by (simp add: min_def)
    then consider (a) "?v = lev xs ys + 1" | (b) "?v = lev (x # xs) ys + 1" | (c) "?v = lev xs (y # ys) + 1"
      by blast
    then show ?thesis
    proof cases
      case a
      then have "lev xs (drop 1 (y # ys)) \<le> ?v" by simp
      then show ?thesis by (intro exI[of _ 1]) simp
    next
      case b
      with k have "lev xs (drop (Suc k) (y # ys)) \<le> ?v" by simp
      with k(1) show ?thesis by (intro exI[of _ "Suc k"]) simp
    next
      case c
      then have "lev xs (drop 0 (y # ys)) \<le> ?v" by simp
      then show ?thesis by (intro exI[of _ 0]) simp
    qed
  qed
qed

lemma lev_append_lower: "\<exists>k \<le> length ys. lev xs (drop k ys) \<le> lev (zs @ xs) ys"
proof (induction zs arbitrary: ys)
  case Nil
  show ?case by (intro exI[of _ 0]) simp
next
  case (Cons z zs)
  obtain k where k: "k \<le> length ys" "lev (zs @ xs) (drop k ys) \<le> lev (z # zs @ xs) ys"
    using lev_Cons_lower[of ys "zs @ xs" z] by blast
  obtain k' where k': "k' \<le> length (drop k ys)" "lev xs (drop k' (drop k ys)) \<le> lev (zs @ xs) (drop k ys)"
    using Cons.IH[of "drop k ys"] by blast
  from k k' have "k' + k \<le> length ys" "lev xs (drop (k' + k) ys) \<le> lev ((z # zs) @ xs) ys"
    by simp_all
  then show ?case by blast
qed

lemma distRow_Min_le_final:
  assumes "i \<le> length s1"
  shows "Min (set (distRow s1 s2 i)) \<le> prefixDist s1 s2 (length s1) (length s2)"
proof -
  obtain k where k: "k \<le> length (rev s2)"
      "lev (rev (take i s1)) (drop k (rev s2)) \<le> lev (rev (drop i s1) @ rev (take i s1)) (rev s2)"
    using lev_append_lower[of "rev s2" "rev (take i s1)" "rev (drop i s1)"] by blast
  have full: "rev (drop i s1) @ rev (take i s1) = rev s1"
    by (simp flip: rev_append)
  have "prefixDist s1 s2 i (length s2 - k) \<le> prefixDist s1 s2 (length s1) (length s2)"
    using k(2) unfolding full by (simp add: prefixDist_def drop_rev)
  moreover have "prefixDist s1 s2 i (length s2 - k) \<in> set (distRow s1 s2 i)"
    unfolding distRow_def set_map by (rule imageI) (simp del: upt_Suc)
  ultimately show ?thesis
    by (meson List.finite_set Min_le order_trans)
qed

lemma rowLoop_sound:
  assumes "1 \<le> i" "i \<le> length s1 + 1" "prev = distRow s1 s2 (i - 1)" "length cur = length s2 + 1"
  shows "rowLoop s1 s2 m i prev cur = prefixDist s1 s2 (length s1) (length s2)
       \<or> (rowLoop s1 s2 m i prev cur = m + 1 \<and> m < prefixDist s1 s2 (length s1) (length s2))"
  using assms
proof (induction s1 s2 m i prev cur rule: rowLoop.induct)
  case (1 str1 str2 maxDistance i prev cur)
  show ?case
  proof (cases "i \<le> length str1")
    case False
    with "1.prems" have "i = length str1 + 1" by simp
    moreover have "rowLoop str1 str2 maxDistance i prev cur = prev ! length str2"
      using False by (subst rowLoop.simps) simp
    ultimately show ?thesis
      using "1.prems" by (simp add: distRow_def nth_map_upt0 del: upt_Suc)
  next
    case True
    from "1.prems" obtain i' where i': "i = Suc i'" by (cases i) auto
    with True have lt: "i' < length str1" by simp
    have row: "fillRow str1 str2 i prev cur = distRow str1 str2 i"
      using fillRow_distRow[OF lt, of prev str2 cur] "1.prems" i' by simp
    show ?thesis
    proof (cases "Min (set (distRow str1 str2 i)) > maxDistance")
      case big: True
      have "Min (set (distRow str1 str2 i)) \<le> prefixDist str1 str2 (length str1) (length str2)"
        using distRow_Min_le_final[OF True] .
      moreover have "rowLoop str1 str2 maxDistance i prev cur = maxDistance + 1"
        using big True row by (subst rowLoop.simps) (simp add: Let_def)
      ultimately show ?thesis using big by simp
    next
      case small: False
      have "rowLoop str1 str2 maxDistance (i + 1) (distRow str1 str2 i) prev
            = prefixDist str1 str2 (length str1) (length str2)
          \<or> (rowLoop str1 str2 maxDistance (i + 1) (distRow str1 str2 i) prev = maxDistance + 1
             \<and> maxDistance < prefixDist str1 str2 (length str1) (length str2))"
        using "1.IH"[OF True refl refl] small row True "1.prems"
        by (simp add: distRow_def)
      moreover have "rowLoop str1 str2 maxDistance i prev cur
          = rowLoop str1 str2 maxDistance (i + 1) (distRow str1 str2 i) prev"
        using small True row by (subst rowLoop.simps) (simp add: Let_def)
      ultimately show ?thesis by simp
    qed
  qed
qed

lemma lev_ge_length_diff: "\<bar>int (length xs) - int (length ys)\<bar> \<le> lev xs ys"
  by (induction xs ys rule: lev.induct) auto

lemma fold_init_row:
  "n \<le> length xs \<Longrightarrow> fold (\<lambda>j p. p[j := f j]) [0..<n] xs = map f [0..<n] @ drop n xs"
proof (induction n)
  case 0
  show ?case by simp
next
  case (Suc n)
  then have "drop n xs = xs ! n # drop (Suc n) xs"
    by (simp add: Cons_nth_drop_Suc)
  with Suc show ?case
    by (simp add: list_update_append)
qed

lemma optimized_sound:
  "calculateEditDistanceOptimized s1 s2 m = lev (rev s1) (rev s2)
   \<or> (calculateEditDistanceOptimized s1 s2 m = m + 1 \<and> m < lev (rev s1) (rev s2))"
proof (cases "\<bar>int (length s1) - int (length s2)\<bar> > m")
  case True
  moreover have "\<bar>int (length s1) - int (length s2)\<bar> \<le> lev (rev s1) (rev s2)"
    using lev_ge_length_diff[of "rev s1" "rev s2"] by simp
  ultimately show ?thesis
    by (simp add: calculateEditDistanceOptimized_def)
next
  case False
  have init: "fold (\<lambda>j p. p[j := int j]) [0..<length s2 + 1] (replicate (length s2 + 1) 0)
      = distRow s1 s2 0"
    using fold_init_row[of "length s2 + 1" "replicate (length s2 + 1) 0" int]
    by (simp add: distRow_def prefixDist_0_left del: upt_Suc)
  have "rowLoop s1 s2 m 1 (distRow s1 s2 0) (replicate (length s2 + 1) 0)
          = prefixDist s1 s2 (length s1) (length s2)
      \<or> (rowLoop s1 s2 m 1 (distRow s1 s2 0) (replicate (length s2 + 1) 0) = m + 1
          \<and> m < prefixDist s1 s2 (length s1) (length s2))"
    by (rule rowLoop_sound) simp_all
  then show ?thesis
    unfolding calculateEditDistanceOptimized_def Let_def init prefixDist_full
    using False by simp
qed


lemma arraySet_append: "arraySet h xs (length xs) v = xs @ [v]"
  by (simp add: arraySet_def)

lemma matrix0_eq:
  "fold (\<lambda>i m. arraySet [] m i [int i]) [0..<n] [] = map (\<lambda>i. [int i]) [0..<n]"
proof (induction n)
  case 0
  show ?case by simp
next
  case (Suc n)
  then show ?case
    using arraySet_append[of "[]" "map (\<lambda>i. [int i]) [0..<n]" "[int n]"] by simp
qed

lemma length_matState: "length (matState str1 str2 n k) = length str2 + 1"
  by (simp add: matState_def)

lemma nth_matState:
  "i \<le> length str2 \<Longrightarrow> matState str1 str2 n k ! i =
     (if i \<le> n then map (prefixDist str2 str1 i) [0..<length str1 + 1]
      else if i = n + 1 then map (prefixDist str2 str1 i) [0..<k + 1]
      else [int i])"
  unfolding matState_def by (rule nth_map_upt0)

lemma upt_0_1: "[0..<Suc 0] = [0]"
  by simp

lemma matState_next_row:
  "n < length str2 \<Longrightarrow> matState str1 str2 n (length str1) = matState str1 str2 (Suc n) 0"
  by (rule nth_equalityI)
     (auto simp: length_matState nth_matState prefixDist_0_right less_Suc_eq_le upt_0_1
           simp del: upt_Suc)

lemma matrix1_eq:
  "fold (\<lambda>j m. matrixSet m 0 j (int j)) [0..<n + 1] (map (\<lambda>i. [int i]) [0..<length str2 + 1])
   = (map (\<lambda>i. [int i]) [0..<length str2 + 1])[0 := map int [0..<n + 1]]"
proof (induction n)
  case 0
  show ?case
    by (simp add: matrixSet_def arraySet_def upt_rec[of 0])
next
  case (Suc n)
  have "[0..<Suc n + 1] = [0..<n + 1] @ [Suc n]" by simp
  then show ?case
    unfolding fold_append comp_def
    using Suc arraySet_append[of 0 "map int [0..<n + 1]" "int (Suc n)"]
    by (simp add: matrixSet_def upt_rec[of 0 "Suc (length str2)"] del: upt_Suc)
qed


lemma matrix1_matState:
  "(map (\<lambda>i. [int i]) [0..<length str2 + 1])[0 := map int [0..<length str1 + 1]]
   = matState str1 str2 0 0"
proof (rule nth_equalityI)
  show "length ((map (\<lambda>i. [int i]) [0..<length str2 + 1])[0 := map int [0..<length str1 + 1]])
      = length (matState str1 str2 0 0)"
    by (simp add: length_matState)
  fix i
  assume "i < length ((map (\<lambda>i. [int i]) [0..<length str2 + 1])[0 := map int [0..<length str1 + 1]])"
  then have i: "i \<le> length str2" by simp
  have row0: "map int [0..<length str1 + 1] = map (prefixDist str2 str1 0) [0..<length str1 + 1]"
    by (rule map_cong) (simp_all add: prefixDist_0_left del: upt_Suc)
  show "(map (\<lambda>i. [int i]) [0..<length str2 + 1])[0 := map int [0..<length str1 + 1]] ! i
      = matState str1 str2 0 0 ! i"
  proof (cases "i = 0")
    case True
    then show ?thesis
      using row0 by (simp add: nth_matState del: upt_Suc)
  next
    case False
    with i show ?thesis
      by (simp add: nth_matState nth_map_upt0 prefixDist_0_right upt_0_1 del: upt_Suc)
  qed
qed

lemma matState_step:
  assumes n: "n < length str2" and k: "k < length str1"
  shows "matrixSet (matState str1 str2 n k) (Suc n) (Suc k)
           (matrixCell str1 str2 (Suc n) (Suc k) (matState str1 str2 n k))
         = matState str1 str2 n (Suc k)"
proof -
  let ?m = "matState str1 str2 n k"
  have rn: "?m ! n = map (prefixDist str2 str1 n) [0..<length str1 + 1]"
    using n by (simp add: nth_matState del: upt_Suc)
  have rn1: "?m ! Suc n = map (prefixDist str2 str1 (Suc n)) [0..<k + 1]"
    using n by (simp add: nth_matState del: upt_Suc)
  have c1: "?m ! n ! k = prefixDist str2 str1 n k" and c2: "?m ! n ! Suc k = prefixDist str2 str1 n (Suc k)"
    using k unfolding rn by (simp_all add: nth_map_upt0 del: upt_Suc)
  have c3: "?m ! Suc n ! k = prefixDist str2 str1 (Suc n) k"
    unfolding rn1 by (simp add: nth_map_upt0 del: upt_Suc)
  have cellv: "matrixCell str1 str2 (Suc n) (Suc k) ?m = prefixDist str2 str1 (Suc n) (Suc k)"
    using n k c1 c2 c3 by (simp add: matrixCell_def charAt_def prefixDist_Suc)
  have newrow: "arraySet 0 (?m ! Suc n) (Suc k) (prefixDist str2 str1 (Suc n) (Suc k))
      = map (prefixDist str2 str1 (Suc n)) [0..<Suc k + 1]"
    unfolding rn1 using arraySet_append[of 0 "map (prefixDist str2 str1 (Suc n)) [0..<k + 1]"]
    by simp
  show ?thesis
    unfolding matrixSet_def cellv newrow
    by (rule nth_equalityI)
       (auto simp: length_matState nth_matState nth_list_update less_Suc_eq_le simp del: upt_Suc)
qed

lemma inner_fold_matState:
  assumes n: "n < length str2"
  shows "k \<le> length str1 \<Longrightarrow>
    fold (\<lambda>j m. matrixSet m (Suc n) j (matrixCell str1 str2 (Suc n) j m)) [1..<k + 1]
      (matState str1 str2 n 0) = matState str1 str2 n k"
proof (induction k)
  case 0
  show ?case by simp
next
  case (Suc k)
  then show ?case
    using matState_step[OF n, of k str1] by simp
qed

lemma outer_fold_matState:
  "n \<le> length str2 \<Longrightarrow>
    fold (\<lambda>i m. fold (\<lambda>j m. matrixSet m i j (matrixCell str1 str2 i j m)) [1..<length str1 + 1] m)
      [1..<n + 1] (matState str1 str2 0 0) = matState str1 str2 n 0"
proof (induction n)
  case 0
  show ?case by simp
next
  case (Suc n)
  then have n: "n < length str2" by simp
  have "[1..<Suc n + 1] = [1..<n + 1] @ [Suc n]" by simp
  then show ?case
    unfolding fold_append comp_def
    using Suc inner_fold_matState[OF n order_refl] matState_next_row[OF n, of str1]
    by (simp del: upt_Suc)
qed

lemma calculateEditDistance_lev: "calculateEditDistance str1 str2 = lev (rev str1) (rev str2)"
proof -
  have "calculateEditDistance str1 str2 = matState str1 str2 (length str2) 0 ! length str2 ! length str1"
    unfolding calculateEditDistance_def Let_def matrix0_eq matrix1_eq matrix1_matState
      outer_fold_matState[OF order_refl] ..
  also have "\<dots> = prefixDist str2 str1 (length str2) (length str1)"
    by (simp add: nth_matState nth_map_upt0 del: upt_Suc)
  finally show ?thesis
    by (simp add: prefixDist_full lev_sym)
qed

text \<open>
  calculateEditDistance returns the true Levenshtein distance: its result is a number of
  edit operations that transforms \<open>str1\<close> into \<open>str2\<close>, and no smaller number does.
\<close>

lemma edits_Nil_left: "edits (int (length ys)) [] ys"
proof (induction ys)
  case Nil
  show ?case by (simp add: edits.stop)
next
  case (Cons y ys)
  from edits.ins[OF Cons, of y] show ?case by (simp add: add.commute)
qed

lemma edits_Nil_right: "edits (int (length xs)) xs []"
proof (induction xs)
  case Nil
  show ?case by (simp add: edits.stop)
next
  case (Cons x xs)
  from edits.del[OF Cons, of x] show ?case by (simp add: add.commute)
qed

lemma edits_lev: "edits (lev xs ys) xs ys"
proof (induction xs ys rule: lev.induct)
  case (1 ys)
  show ?case using edits_Nil_left[of ys] by simp
next
  case (2 x xs)
  show ?case using edits_Nil_right[of "x # xs"] by simp
next
  case (3 x xs y ys)
  show ?case
  proof (cases "x = y")
    case True
    with 3 show ?thesis by (simp add: edits.keep)
  next
    case False
    let ?v = "lev (x # xs) (y # ys)"
    from False have "?v = lev xs ys + 1 \<or> ?v = lev (x # xs) ys + 1 \<or> ?v = lev xs (y # ys) + 1"
      by (simp add: min_def)
    then consider (a) "?v = lev xs ys + 1" | (b) "?v = lev (x # xs) ys + 1" | (c) "?v = lev xs (y # ys) + 1"
      by blast
    then show ?thesis
    proof cases
      case a
      then show ?thesis using edits.subst[OF "3.IH"(2)[OF False], of x y] by simp
    next
      case b
      then show ?thesis using edits.ins[OF "3.IH"(3)[OF False], of y] by simp
    next
      case c
      then show ?thesis using edits.del[OF "3.IH"(4)[OF False], of x] by simp
    qed
  qed
qed

lemma lev_step_bounds:
  "lev (x # xs) ys \<le> lev xs ys + 1 \<and> lev xs ys \<le> lev xs (y # ys) + 1"
proof (induction "length xs + length ys" arbitrary: xs ys x y rule: less_induct)
  case less
  have A: "lev (x # xs) ys \<le> lev xs ys + 1"
  proof (cases ys)
    case Nil
    then show ?thesis by (simp add: lev_Nil2)
  next
    case (Cons y' ys')
    show ?thesis
    proof (cases "x = y'")
      case True
      have "lev xs ys' \<le> lev xs (y' # ys') + 1"
        using less[of xs ys' x y'] Cons by simp
      with True Cons show ?thesis by simp
    next
      case False
      with Cons show ?thesis by simp
    qed
  qed
  have B: "lev xs ys \<le> lev xs (y # ys) + 1"
  proof (cases xs)
    case Nil
    then show ?thesis by simp
  next
    case (Cons x' xs')
    have a: "lev (x' # xs') ys \<le> lev xs' ys + 1"
      using less[of xs' ys x' y] Cons by simp
    have b: "lev xs' ys \<le> lev xs' (y # ys) + 1"
      using less[of xs' ys x' y] Cons by simp
    show ?thesis
    proof (cases "x' = y")
      case True
      with a Cons show ?thesis by simp
    next
      case False
      let ?v = "lev (x' # xs') (y # ys)"
      from False have "?v = lev xs' ys + 1 \<or> ?v = lev (x' # xs') ys + 1 \<or> ?v = lev xs' (y # ys) + 1"
        by (simp add: min_def)
      with a b have "lev (x' # xs') ys \<le> ?v + 1" by linarith
      with Cons show ?thesis by simp
    qed
  qed
  from A B show ?case ..
qed

lemma lev_le_edits: "edits n xs ys \<Longrightarrow> lev xs ys \<le> n"
proof (induction rule: edits.induct)
  case stop
  show ?case by simp
next
  case (keep n xs ys x)
  then show ?case by simp
next
  case (subst n xs ys x y)
  then show ?case by (cases "x = y") simp_all
next
  case (del n xs ys x)
  have "lev (x # xs) ys \<le> lev xs ys + 1" using lev_step_bounds[of x xs ys] by blast
  with del show ?case by linarith
next
  case (ins n xs ys y)
  have "lev xs (y # ys) = lev (y # ys) xs" by (rule lev_sym)
  also have "\<dots> \<le> lev ys xs + 1" using lev_step_bounds[of y ys xs] by blast
  also have "\<dots> = lev xs ys + 1" by (simp add: lev_sym)
  finally show ?case using ins by linarith
qed

lemma edits_snoc:
  assumes "edits n xs ys"
  shows "edits n (xs @ [a]) (ys @ [a])" and "edits (n + 1) (xs @ [a]) (ys @ [b])"
    and "edits (n + 1) (xs @ [a]) ys" and "edits (n + 1) xs (ys @ [b])"
  using assms
proof (induction rule: edits.induct)
  case stop
  {
    case 1 show ?case using edits.keep[OF edits.stop, of a] by simp
  next
    case 2 show ?case using edits.subst[OF edits.stop, of a b] by simp
  next
    case 3 show ?case using edits.del[OF edits.stop, of a] by simp
  next
    case 4 show ?case using edits.ins[OF edits.stop, of b] by simp
  }
next
  case (keep n xs ys x)
  {
    case 1 show ?case using edits.keep[OF keep.IH(1), of x] by simp
  next
    case 2 show ?case using edits.keep[OF keep.IH(2), of x] by simp
  next
    case 3 show ?case using edits.keep[OF keep.IH(3), of x] by simp
  next
    case 4 show ?case using edits.keep[OF keep.IH(4), of x] by simp
  }
next
  case (subst n xs ys x y)
  {
    case 1 show ?case using edits.subst[OF subst.IH(1), of x y] by simp
  next
    case 2 show ?case using edits.subst[OF subst.IH(2), of x y] by simp
  next
    case 3 show ?case using edits.subst[OF subst.IH(3), of x y] by simp
  next
    case 4 show ?case using edits.subst[OF subst.IH(4), of x y] by simp
  }
next
  case (del n xs ys x)
  {
    case 1 show ?case using edits.del[OF del.IH(1), of x] by simp
  next
    case 2 show ?case using edits.del[OF del.IH(2), of x] by simp
  next
    case 3 show ?case using edits.del[OF del.IH(3), of x] by simp
  next
    case 4 show ?case using edits.del[OF del.IH(4), of x] by simp
  }
next
  case (ins n xs ys y)
  {
    case 1 show ?case using edits.ins[OF ins.IH(1), of y] by simp
  next
    case 2 show ?case using edits.ins[OF ins.IH(2), of y] by simp
  next
    case 3 show ?case using edits.ins[OF ins.IH(3), of y] by simp
  next
    case 4 show ?case using edits.ins[OF ins.IH(4), of y] by simp
  }
qed

lemma edits_rev: "edits n xs ys \<Longrightarrow> edits n (rev xs) (rev ys)"
proof (induction rule: edits.induct)
  case stop
  show ?case by (simp add: edits.stop)
next
  case (keep n xs ys x)
  then show ?case by (simp add: edits_snoc(1))
next
  case (subst n xs ys x y)
  then show ?case by (simp add: edits_snoc(2))
next
  case (del n xs ys x)
  then show ?case by (simp add: edits_snoc(3))
next
  case (ins n xs ys y)
  then show ?case by (simp add: edits_snoc(4))
qed

lemma lev_rev: "lev (rev xs) (rev ys) = lev xs ys"
proof (rule antisym)
  show "lev (rev xs) (rev ys) \<le> lev xs ys"
    by (rule lev_le_edits) (rule edits_rev, rule edits_lev)
  have "lev (rev (rev xs)) (rev (rev ys)) \<le> lev (rev xs) (rev ys)"
    by (rule lev_le_edits) (rule edits_rev, rule edits_lev)
  then show "lev xs ys \<le> lev (rev xs) (rev ys)" by simp
qed

lemma calculateEditDistance_minimal:
  "edits (calculateEditDistance str1 str2) str1 str2
   \<and> (\<forall>n. edits n str1 str2 \<longrightarrow> calculateEditDistance str1 str2 \<le> n)"
  unfolding calculateEditDistance_lev lev_rev
  using edits_lev[of str1 str2] lev_le_edits[of _ str1 str2] by blast

lemma optimized_vs_unbounded:
  "calculateEditDistanceOptimized s1 s2 m = calculateEditDistance s1 s2
   \<or> (calculateEditDistanceOptimized s1 s2 m = m + 1 \<and> m < calculateEditDistance s1 s2)"
  unfolding calculateEditDistance_lev by (rule optimized_sound)

subsection \<open>The bounded engine against the unbounded one\<close>

text \<open>
  Claim C3. For every pair of strings and every bound \<open>maxDistance\<close>,
  calculateEditDistanceOptimized returns either exactly the distance computed by the
  unbounded calculateEditDistance or a value strictly greater than \<open>maxDistance\<close>; and
  whenever that distance is at most \<open>maxDistance\<close>, the two engines return equal values.
\<close>

theorem bounded_exact_or_above:
  "(calculateEditDistanceOptimized str1 str2 maxDistance = calculateEditDistance str1 str2
      \<or> calculateEditDistanceOptimized str1 str2 maxDistance > maxDistance)
   \<and> (calculateEditDistance str1 str2 \<le> maxDistance \<longrightarrow>
        calculateEditDistanceOptimized str1 str2 maxDistance = calculateEditDistance str1 str2)"
  using optimized_vs_unbounded[of str1 str2 maxDistance] by auto

theorem bounded_exact_or_above_witness:
  "calculateEditDistance (utf16 ''kitten'') (utf16 ''sitting'') \<le> 3
   \<and> calculateEditDistanceOptimized (utf16 ''kitten'') (utf16 ''sitting'') 3
       = calculateEditDistance (utf16 ''kitten'') (utf16 ''sitting'')"
proof -
  have h: "calculateEditDistance (utf16 ''kitten'') (utf16 ''sitting'') \<le> 3"
    by code_simp
  with bounded_exact_or_above[of "utf16 ''kitten''" "utf16 ''sitting''" 3] show ?thesis
    by blast
qed

text \<open>
  Claim C1, as stated, fails: with \<open>maxDistance = 2\<close> no row of the table for
  \<open>"abcd"\<close> and \<open>"cdab"\<close> has a minimum above 2, so the loop runs to the end and
  returns the last cell, the true distance 4, which is greater than \<open>maxDistance + 1\<close>.
\<close>

theorem bounded_above_sentinel_counterexample:
  "\<not> calculateEditDistanceOptimized (utf16 ''abcd'') (utf16 ''cdab'') 2 \<le> 2 + 1
   \<and> calculateEditDistance (utf16 ''abcd'') (utf16 ''cdab'') > 2
   \<and> calculateEditDistanceOptimized (utf16 ''abcd'') (utf16 ''cdab'') 2 \<noteq> 2 + 1"
  by code_simp

text \<open>
  Claim C1, amended. The bounded engine never returns a value greater than the larger of
  \<open>maxDistance + 1\<close> and the true distance; and whenever the true distance exceeds
  \<open>maxDistance\<close>, it returns a value greater than \<open>maxDistance\<close>, which is either the
  sentinel \<open>maxDistance + 1\<close> or the true distance itself. The true distance is the
  result of calculateEditDistance (lemma \<open>calculateEditDistance_minimal\<close>).
\<close>

theorem bounded_result_range:
  "calculateEditDistanceOptimized str1 str2 maxDistance
     \<le> max (maxDistance + 1) (calculateEditDistance str1 str2)
   \<and> (maxDistance < calculateEditDistance str1 str2 \<longrightarrow>
        maxDistance < calculateEditDistanceOptimized str1 str2 maxDistance
        \<and> (calculateEditDistanceOptimized str1 str2 maxDistance = maxDistance + 1
           \<or> calculateEditDistanceOptimized str1 str2 maxDistance = calculateEditDistance str1 str2))"
  using optimized_vs_unbounded[of str1 str2 maxDistance] by auto

theorem bounded_result_range_witness:
  "2 < calculateEditDistance (utf16 ''abcd'') (utf16 ''cdab'')
   \<and> 2 < calculateEditDistanceOptimized (utf16 ''abcd'') (utf16 ''cdab'') 2
   \<and> calculateEditDistanceOptimized (utf16 ''abcd'') (utf16 ''cdab'') 2
       \<le> max (2 + 1) (calculateEditDistance (utf16 ''abcd'') (utf16 ''cdab''))"
proof -
  have h: "2 < calculateEditDistance (utf16 ''abcd'') (utf16 ''cdab'')"
    by code_simp
  with bounded_result_range[of "utf16 ''abcd''" "utf16 ''cdab''" 2] show ?thesis
    by blast
qed


section \<open>Properties of the scorers\<close>

lemma ratio_unit: "a \<le> b \<Longrightarrow> 0 \<le> real a / real b \<and> real a / real b \<le> 1"
  by (cases "b = 0") (simp_all add: divide_le_eq_1)

lemma includesStr_length: "includesStr s t \<Longrightarrow> length t \<le> length s"
proof (induction s)
  case Nil
  then show ?case by simp
next
  case (Cons c s)
  then show ?case
    by (auto dest: prefix_length_le)
qed

lemma calculateSubstringMatch_range:
  "0 \<le> calculateSubstringMatch target search \<and> calculateSubstringMatch target search \<le> 1"
proof -
  have a: "includesStr target search \<Longrightarrow>
      0 \<le> real (length search) / real (length target) \<and> real (length search) / real (length target) \<le> 1"
    by (rule ratio_unit) (rule includesStr_length)
  have b: "includesStr search target \<Longrightarrow>
      0 \<le> real (length target) / real (length search) \<and> real (length target) / real (length search) \<le> 1"
    by (rule ratio_unit) (rule includesStr_length)
  show ?thesis
    unfolding calculateSubstringMatch_def using a b by auto
qed

lemma commonPrefixLoop_bound:
  "commonPrefixLoop str1 str2 minLength i n \<le> n + (minLength - i)"
proof (induction str1 str2 minLength i n rule: commonPrefixLoop.induct)
  case (1 str1 str2 minLength i commonLength)
  show ?case
  proof (cases "i < minLength \<and> charAt str1 i = charAt str2 i")
    case True
    then have "commonPrefixLoop str1 str2 minLength i commonLength
        = commonPrefixLoop str1 str2 minLength (i + 1) (commonLength + 1)"
      by (subst commonPrefixLoop.simps) simp
    moreover have "commonPrefixLoop str1 str2 minLength (i + 1) (commonLength + 1)
        \<le> (commonLength + 1) + (minLength - (i + 1))"
      using "1.IH" True by blast
    ultimately show ?thesis using True by arith
  next
    case False
    then have "commonPrefixLoop str1 str2 minLength i commonLength = commonLength"
      by (subst commonPrefixLoop.simps) auto
    then show ?thesis by simp
  qed
qed

lemma calculateCommonPrefix_range:
  "0 \<le> calculateCommonPrefix str1 str2 \<and> calculateCommonPrefix str1 str2 \<le> 1"
proof -
  have "commonPrefixLoop str1 str2 (min (length str1) (length str2)) 0 0
      \<le> max (length str1) (length str2)"
    using commonPrefixLoop_bound[of str1 str2 "min (length str1) (length str2)" 0 0] by arith
  from ratio_unit[OF this] show ?thesis
    by (simp add: calculateCommonPrefix_def Let_def)
qed

lemma continuousRun_bound:
  "continuousRun target search i j n \<le> n + (length search - j)"
proof (induction target search i j n rule: continuousRun.induct)
  case (1 target search i j n)
  show ?case
  proof (cases "j < length search \<and> charAt target (i + j) = charAt search j")
    case True
    then have "continuousRun target search i j n = continuousRun target search i (j + 1) (n + 1)"
      by (subst continuousRun.simps) simp
    moreover have "continuousRun target search i (j + 1) (n + 1) \<le> (n + 1) + (length search - (j + 1))"
      using "1.IH" True by blast
    ultimately show ?thesis using True by arith
  next
    case False
    then have "continuousRun target search i j n = n"
      by (subst continuousRun.simps) auto
    then show ?thesis by simp
  qed
qed

lemma fold_max_bound:
  "m0 \<le> b \<Longrightarrow> (\<And>i. f i \<le> b) \<Longrightarrow> fold (\<lambda>i m. max m (f i)) xs (m0::nat) \<le> b"
  by (induction xs arbitrary: m0) simp_all

lemma calculateContinuousMatch_range:
  "0 \<le> calculateContinuousMatch target search \<and> calculateContinuousMatch target search \<le> 1"
proof -
  let ?m = "fold (\<lambda>i m. max m (continuousRun target search i 0 0))
              [0..<nat (int (length target) - int (length search) + 1)] 0"
  have m: "?m \<le> length search"
    by (rule fold_max_bound) (use continuousRun_bound[of target search _ 0 0] in simp_all)
  then have m': "?m \<le> max (length target) (length search)" by simp
  from ratio_unit[OF m] have a: "0 \<le> real ?m / real (length search)" "real ?m / real (length search) \<le> 1"
    by simp_all
  from ratio_unit[OF m'] have b: "0 \<le> real ?m / real (max (length target) (length search))"
    "real ?m / real (max (length target) (length search)) \<le> 1"
    by simp_all
  from a b have "0 \<le> real ?m / real (length search) * (7 / 10)
                    + real ?m / real (max (length target) (length search)) * (3 / 10)"
    and "real ?m / real (length search) * (7 / 10)
          + real ?m / real (max (length target) (length search)) * (3 / 10) \<le> 1"
    by simp_all
  then show ?thesis
    unfolding calculateContinuousMatch_def Let_def by simp
qed

lemma fold_count_bound:
  "fold (\<lambda>x n. if P x n then n + 1 else n) xs (c::nat) \<le> c + length xs"
proof (induction xs arbitrary: c)
  case Nil
  show ?case by simp
next
  case (Cons x xs)
  show ?case
    using Cons[of "c + 1"] Cons[of c] by simp
qed

lemma calculateChineseWordMatch_range:
  "0 \<le> calculateChineseWordMatch target search \<and> calculateChineseWordMatch target search \<le> 1"
proof -
  let ?tc = "splitChars target" and ?sc = "splitChars search"
  let ?mc = "fold (\<lambda>searchChar n. if searchChar \<in> set ?tc then n + 1 else n) ?sc (0::nat)"
  let ?cm = "fold (\<lambda>i n.
                (let searchChar = ?sc ! i; targetIndex = indexOf ?tc searchChar
                 in if targetIndex \<noteq> - 1 then
                      (if i = 0 \<or> targetIndex > indexOf ?tc (?sc ! (i - 1)) then n + 1 else n)
                    else n)) [0..<length ?sc] (0::nat)"
  have mc: "?mc \<le> length ?sc"
    using fold_count_bound[of "\<lambda>x n. x \<in> set ?tc" ?sc 0] by simp
  have "?cm = fold (\<lambda>i n. if (indexOf ?tc (?sc ! i) \<noteq> - 1
                \<and> (i = 0 \<or> indexOf ?tc (?sc ! i) > indexOf ?tc (?sc ! (i - 1)))) then n + 1 else n)
              [0..<length ?sc] 0"
    by (rule arg_cong[where f = "\<lambda>f. fold f [0..<length ?sc] 0"]) (auto simp: Let_def fun_eq_iff)
  also have "\<dots> \<le> 0 + length [0..<length ?sc]"
    by (rule fold_count_bound)
  finally have cm: "?cm \<le> length ?sc" by simp
  from ratio_unit[OF mc] ratio_unit[OF cm]
  have "0 \<le> real ?mc / real (length ?sc) * (8 / 10) + real ?cm / real (length ?sc) * (2 / 10)"
    and "real ?mc / real (length ?sc) * (8 / 10) + real ?cm / real (length ?sc) * (2 / 10) \<le> 1"
    by simp_all
  then show ?thesis
    unfolding calculateChineseWordMatch_def Let_def by simp
qed

lemma calculateLengthSimilarity_range:
  "0 \<le> calculateLengthSimilarity str1 str2 \<and> calculateLengthSimilarity str1 str2 \<le> 1"
  unfolding calculateLengthSimilarity_def Let_def
  using ratio_unit[of "min (length str1) (length str2)" "max (length str1) (length str2)"]
  by simp


lemma distinct_newSet: "distinct (newSet xs)"
  by (simp add: newSet_def)

lemma set_newSet: "set (newSet xs) = set xs"
  by (simp add: newSet_def)

lemma fold_count_filter:
  "fold (\<lambda>x n. if P x then n + 1 else n) xs (c::nat) = c + length (filter P xs)"
  by (induction xs arbitrary: c) simp_all

lemma distinct_filter_mem_le:
  assumes "distinct xs" "distinct ys"
  shows "length (filter (\<lambda>x. x \<in> set ys) xs) \<le> length ys"
proof -
  have "length (filter (\<lambda>x. x \<in> set ys) xs) = card (set (filter (\<lambda>x. x \<in> set ys) xs))"
    using assms(1) by (metis distinct_card distinct_filter)
  also have "\<dots> \<le> card (set ys)"
    by (rule card_mono) auto
  also have "\<dots> = length ys"
    using assms(2) by (simp add: distinct_card)
  finally show ?thesis .
qed

lemma calculateCharSimilarityOptimized_range:
  "0 \<le> calculateCharSimilarityOptimized str1 str2 \<and> calculateCharSimilarityOptimized str1 str2 \<le> 1"
proof -
  let ?c1 = "newSet (codePoints str1)" and ?c2 = "newSet (codePoints str2)"
  let ?n = "length (filter (\<lambda>ch. ch \<in> set ?c2) ?c1)"
  have n1: "?n \<le> length ?c1" by simp
  have n2: "?n \<le> length ?c2"
    by (rule distinct_filter_mem_le) (rule distinct_newSet)+
  have u: "int (length ?c1) + int (length ?c2) - int ?n = int (length ?c1 + length ?c2 - ?n)"
    using n1 by linarith
  have "?n \<le> length ?c1 + length ?c2 - ?n"
    using n1 n2 by linarith
  from ratio_unit[OF this]
  have r: "0 \<le> real ?n / real (length ?c1 + length ?c2 - ?n)"
    "real ?n / real (length ?c1 + length ?c2 - ?n) \<le> 1"
    by simp_all
  have fc: "fold (\<lambda>ch n. if ch \<in> set ?c2 then n + 1 else n) ?c1 0 = ?n"
    by (simp add: fold_count_filter)
  have ru: "real_of_int (int (length ?c1 + length ?c2 - ?n)) = real (length ?c1 + length ?c2 - ?n)"
    by simp
  show ?thesis
    unfolding calculateCharSimilarityOptimized_def Let_def fc u ru
    using r by (simp del: of_nat_diff of_nat_add)
qed

lemma calculateCharSimilarity_range:
  "0 \<le> calculateCharSimilarity str1 str2 \<and> calculateCharSimilarity str1 str2 \<le> 1"
proof -
  let ?c1 = "newSet (splitChars str1)" and ?c2 = "newSet (splitChars str2)"
  let ?i = "newSet (filter (\<lambda>x. x \<in> set ?c2) ?c1)" and ?u = "newSet (?c1 @ ?c2)"
  have "length ?i = card (set ?i)"
    by (simp add: distinct_card distinct_newSet)
  also have "\<dots> \<le> card (set ?u)"
    by (rule card_mono) (auto simp: set_newSet)
  also have "\<dots> = length ?u"
    by (simp add: distinct_card distinct_newSet)
  finally have "length ?i \<le> length ?u" .
  from ratio_unit[OF this] show ?thesis
    unfolding calculateCharSimilarity_def Let_def by simp
qed

text \<open>
  Claim C7. Each non-boolean scorer (substring ratio, common-prefix ratio, continuous
  run, word overlap, the two character-set Jaccard similarities and the length ratio)
  returns a value in the closed interval from 0 to 1, for every pair of strings.
\<close>

theorem scorers_in_unit_interval:
  "0 \<le> calculateSubstringMatch target search \<and> calculateSubstringMatch target search \<le> 1
   \<and> 0 \<le> calculateCommonPrefix target search \<and> calculateCommonPrefix target search \<le> 1
   \<and> 0 \<le> calculateContinuousMatch target search \<and> calculateContinuousMatch target search \<le> 1
   \<and> 0 \<le> calculateChineseWordMatch target search \<and> calculateChineseWordMatch target search \<le> 1
   \<and> 0 \<le> calculateCharSimilarityOptimized target search
   \<and> calculateCharSimilarityOptimized target search \<le> 1
   \<and> 0 \<le> calculateCharSimilarity target search \<and> calculateCharSimilarity target search \<le> 1
   \<and> 0 \<le> calculateLengthSimilarity target search \<and> calculateLengthSimilarity target search \<le> 1"
  using calculateSubstringMatch_range[of target search] calculateCommonPrefix_range[of target search]
    calculateContinuousMatch_range[of target search] calculateChineseWordMatch_range[of target search]
    calculateCharSimilarityOptimized_range[of target search]
    calculateCharSimilarity_range[of target search] calculateLengthSimilarity_range[of target search]
  by blast

subsection \<open>The two character similarities\<close>

lemma codePoints_no_high:
  "\<forall>c \<in> set s. \<not> isHighSurrogate c \<Longrightarrow> codePoints s = splitChars s"
  by (induction s rule: codePoints.induct) (simp_all add: splitChars_def)

lemma newSet_distinct_id: "distinct xs \<Longrightarrow> newSet xs = xs"
  by (simp add: newSet_def distinct_remdups_id)

lemma length_newSet: "length (newSet xs) = card (set xs)"
  using distinct_card[OF distinct_newSet, of xs] by (simp add: set_newSet)

lemma card_union_lists:
  assumes "distinct xs" "distinct ys"
  shows "card (set xs \<union> set ys) = length xs + length ys - length (filter (\<lambda>x. x \<in> set ys) xs)"
proof -
  have i: "set xs \<inter> set ys = set (filter (\<lambda>x. x \<in> set ys) xs)" by auto
  have "card (set xs \<union> set ys) + card (set xs \<inter> set ys) = card (set xs) + card (set ys)"
    using card_Un_Int[of "set xs" "set ys"] by simp
  moreover have "card (set xs \<inter> set ys) = length (filter (\<lambda>x. x \<in> set ys) xs)"
    unfolding i using assms(1) by (metis distinct_card distinct_filter)
  ultimately show ?thesis
    using assms by (simp add: distinct_card)
qed

lemma charSimilarity_agree_without_pairs:
  assumes "\<forall>c \<in> set str1. \<not> isHighSurrogate c" "\<forall>c \<in> set str2. \<not> isHighSurrogate c"
  shows "calculateCharSimilarityOptimized str1 str2 = calculateCharSimilarity str1 str2"
proof (cases "str1 = [] \<or> str2 = []")
  case True
  then show ?thesis
    by (auto simp: calculateCharSimilarityOptimized_def calculateCharSimilarity_def)
next
  case False
  let ?c1 = "newSet (splitChars str1)" and ?c2 = "newSet (splitChars str2)"
  let ?n = "length (filter (\<lambda>x. x \<in> set ?c2) ?c1)"
  have d: "distinct ?c1" "distinct ?c2" by (rule distinct_newSet)+
  have ne: "?c1 \<noteq> []"
    using False set_newSet[of "splitChars str1"] by (auto simp: splitChars_def)
  have li: "length (newSet (filter (\<lambda>x. x \<in> set ?c2) ?c1)) = ?n"
    using d(1) by (simp add: newSet_distinct_id)
  have "length (newSet (?c1 @ ?c2)) = card (set ?c1 \<union> set ?c2)"
    using length_newSet[of "?c1 @ ?c2"] by simp
  then have lu: "length (newSet (?c1 @ ?c2)) = length ?c1 + length ?c2 - ?n"
    using card_union_lists[OF d] by simp
  have n1: "?n \<le> length ?c1" by simp
  have u: "int (length ?c1) + int (length ?c2) - int ?n = int (length ?c1 + length ?c2 - ?n)"
    using n1 by linarith
  have fc: "fold (\<lambda>ch n. if ch \<in> set ?c2 then n + 1 else n) ?c1 0 = ?n"
    by (simp add: fold_count_filter)
  have plain: "calculateCharSimilarity str1 str2
      = (if length ?c1 + length ?c2 - ?n > 0 then real ?n / real (length ?c1 + length ?c2 - ?n) else 0)"
    using False unfolding calculateCharSimilarity_def Let_def li lu by simp
  have opt: "str1 \<noteq> str2 \<Longrightarrow> calculateCharSimilarityOptimized str1 str2
      = (if length ?c1 + length ?c2 - ?n > 0 then real ?n / real (length ?c1 + length ?c2 - ?n) else 0)"
    using False
    unfolding calculateCharSimilarityOptimized_def Let_def codePoints_no_high[OF assms(1)]
      codePoints_no_high[OF assms(2)] fc u
    by (simp del: of_nat_diff of_nat_add)
  show ?thesis
  proof (cases "str1 = str2")
    case neq: False
    with opt plain show ?thesis by simp
  next
    case True
    then have same: "?c2 = ?c1" by simp
    have "?n = length ?c1" unfolding same by simp
    with ne same have "calculateCharSimilarity str1 str2 = 1"
      unfolding plain by simp
    moreover have "calculateCharSimilarityOptimized str1 str2 = 1"
      using True False by (simp add: calculateCharSimilarityOptimized_def)
    ultimately show ?thesis by simp
  qed
qed

text \<open>
  Claim C10 says that calculateCharSimilarityOptimized and calculateCharSimilarity return
  equal values for every pair of strings. They agree on strings without a high surrogate
  (lemma \<open>charSimilarity_agree_without_pairs\<close>), but not in general: the first builds
  its sets by iterating the strings (code points), the second from \<open>split('')\<close> (code
  units). On the two one-character strings U+20BB7 and U+20BB8, which share their high
  surrogate, the first returns 0 and the second 1/3.
\<close>

theorem charSimilarity_engines_differ:
  "calculateCharSimilarityOptimized [0xD842, 0xDFB7] [0xD842, 0xDFB8] = 0
   \<and> calculateCharSimilarity [0xD842, 0xDFB7] [0xD842, 0xDFB8] = 1 / 3"
  by (simp add: calculateCharSimilarityOptimized_def calculateCharSimilarity_def newSet_def
       splitChars_def isHighSurrogate_def isLowSurrogate_def)


section \<open>Properties of the entry points\<close>

subsection \<open>The cache does not change the results\<close>

lemma cacheKey_inject: "cacheKey a ns = cacheKey b ns \<longleftrightarrow> a = b"
  by (simp add: cacheKey_def)

lemma cacheOK_empty: "cacheOK ns Map.empty"
  by (simp add: cacheOK_def)

lemma cacheOK_lookup:
  assumes "cacheOK ns c" "c (cacheKey nf ns) = Some v"
  shows "v = calculateCharSimilarityOptimized nf ns"
proof -
  from assms(1)[unfolded cacheOK_def, rule_format, OF assms(2)]
  obtain nf' where k: "cacheKey nf ns = cacheKey nf' ns" and v: "v = calculateCharSimilarityOptimized nf' ns"
    by (elim exE conjE)
  from k have "nf = nf'" by (simp only: cacheKey_inject)
  with v show ?thesis by simp
qed

lemma cacheOK_update:
  assumes "cacheOK ns c"
  shows "cacheOK ns (c(cacheKey nf ns \<mapsto> calculateCharSimilarityOptimized nf ns))"
  unfolding cacheOK_def
proof (intro allI impI)
  fix k v
  assume a: "(c(cacheKey nf ns \<mapsto> calculateCharSimilarityOptimized nf ns)) k = Some v"
  show "\<exists>nf'. k = cacheKey nf' ns \<and> v = calculateCharSimilarityOptimized nf' ns"
  proof (cases "k = cacheKey nf ns")
    case True
    with a show ?thesis by (intro exI[of _ nf]) simp
  next
    case False
    with a have "c k = Some v" by simp
    then show ?thesis
      using assms[unfolded cacheOK_def, rule_format, of k v] by simp
  qed
qed

text \<open>The callback on an empty cache, case by case.\<close>

lemma scoreCandidate_falsy:
  "\<not> truthy (it field) \<Longrightarrow> scoreCandidate lower field options ns it = zeroResult it"
  by (simp add: scoreCandidate_def scoreItem_def)

lemma scoreCandidate_gated:
  "truthy (it field) \<Longrightarrow>
   \<bar>int (length (normalizeCase lower (optCaseSensitive options) (toStr (it field)))) - int (length ns)\<bar>
      > optMaxEditDistance options * 2 \<Longrightarrow>
   scoreCandidate lower field options ns it = zeroResult it"
  by (simp add: scoreCandidate_def scoreItem_def Let_def)

lemma scoreCandidate_exact:
  "truthy (it field) \<Longrightarrow>
   \<not> \<bar>int (length (normalizeCase lower (optCaseSensitive options) (toStr (it field)))) - int (length ns)\<bar>
      > optMaxEditDistance options * 2 \<Longrightarrow>
   normalizeCase lower (optCaseSensitive options) (toStr (it field)) = ns \<Longrightarrow>
   scoreCandidate lower field options ns it = exactResult (optWeightConfig options) it"
  by (simp add: scoreCandidate_def scoreItem_def Let_def)

lemma scoreCandidate_scored:
  "truthy (it field) \<Longrightarrow>
   \<not> \<bar>int (length (normalizeCase lower (optCaseSensitive options) (toStr (it field)))) - int (length ns)\<bar>
      > optMaxEditDistance options * 2 \<Longrightarrow>
   normalizeCase lower (optCaseSensitive options) (toStr (it field)) \<noteq> ns \<Longrightarrow>
   scoreCandidate lower field options ns it =
     scoredResult options (splitWords ns) it
       (normalizeCase lower (optCaseSensitive options) (toStr (it field))) ns
       (calculateCharSimilarityOptimized
          (normalizeCase lower (optCaseSensitive options) (toStr (it field))) ns)"
  by (simp add: scoreCandidate_def scoreItem_def Let_def)

lemma scoreItem_cache:
  assumes "cacheOK ns c"
  shows "fst (scoreItem lower field options ns (splitWords ns) it c)
           = scoreCandidate lower field options ns it
       \<and> cacheOK ns (snd (scoreItem lower field options ns (splitWords ns) it c))"
proof -
  let ?nf = "normalizeCase lower (optCaseSensitive options) (toStr (it field))"
  let ?early = "\<not> truthy (it field)
      \<or> \<bar>int (length ?nf) - int (length ns)\<bar> > optMaxEditDistance options * 2 \<or> ?nf = ns"
  show ?thesis
  proof (cases ?early)
    case True
    then have "scoreItem lower field options ns (splitWords ns) it c
        = (scoreCandidate lower field options ns it, c)"
      by (auto simp: scoreCandidate_def scoreItem_def Let_def)
    with assms show ?thesis by simp
  next
    case False
    then have sc: "scoreCandidate lower field options ns it
        = scoredResult options (splitWords ns) it ?nf ns (calculateCharSimilarityOptimized ?nf ns)"
      by (simp add: scoreCandidate_scored)
    show ?thesis
    proof (cases "optEnableCache options \<and> c (cacheKey ?nf ns) \<noteq> None")
      case hit: True
      then obtain v where v: "c (cacheKey ?nf ns) = Some v" by blast
      then have "v = calculateCharSimilarityOptimized ?nf ns"
        by (rule cacheOK_lookup[OF assms])
      with v hit False have "scoreItem lower field options ns (splitWords ns) it c
          = (scoredResult options (splitWords ns) it ?nf ns (calculateCharSimilarityOptimized ?nf ns), c)"
        by (simp add: scoreItem_def Let_def)
      with sc assms show ?thesis by simp
    next
      case miss: False
      with False have "scoreItem lower field options ns (splitWords ns) it c
          = (scoredResult options (splitWords ns) it ?nf ns (calculateCharSimilarityOptimized ?nf ns),
             if optEnableCache options
             then c(cacheKey ?nf ns \<mapsto> calculateCharSimilarityOptimized ?nf ns) else c)"
        by (simp add: scoreItem_def Let_def)
      with sc assms cacheOK_update[OF assms, of ?nf] show ?thesis by simp
    qed
  qed
qed

lemma mapWithCache_pure:
  assumes "\<And>x c. I c \<Longrightarrow> fst (f x c) = g x \<and> I (snd (f x c))"
  shows "I c \<Longrightarrow> fst (mapWithCache f xs c) = map g xs"
proof (induction xs arbitrary: c)
  case Nil
  show ?case by simp
next
  case (Cons x xs)
  from assms[OF Cons.prems, of x] have a: "fst (f x c) = g x" "I (snd (f x c))" by simp_all
  from Cons.IH[OF a(2)] a(1) show ?case
    by (simp add: split_beta Let_def)
qed

lemma scoredItems_map:
  "scoredItems lower field options ns list = map (scoreCandidate lower field options ns) list"
  unfolding scoredItems_def
  by (rule mapWithCache_pure[where I = "cacheOK ns"]) (simp_all add: scoreItem_cache cacheOK_empty)

subsection \<open>Guards of smartFuzzySearch\<close>

lemma rank_Nil: "rank m [] = []"
  by (simp add: rank_def)

lemma set_rank: "set (rank m rs) = {r \<in> set rs. score r \<ge> m}"
  by (simp add: rank_def)

lemma smartFuzzySearch_guards:
  "list = None \<or> field = None \<or> field = Some [] \<or> searchTerm = []
     \<or> length (normalizeCase lower (optCaseSensitive options) searchTerm) < 2 \<Longrightarrow>
   smartFuzzySearch lower list field searchTerm options = None"
  by (auto simp: smartFuzzySearch_def Let_def split: option.splits)

text \<open>
  Claim C6, amended. smartFuzzySearch returns absent whenever the collection is missing
  or not an array, the field selector is unset, the search term is empty, or the
  normalized search term has fewer than 2 code units. In particular a search term of one
  code unit gives absent, for every collection, field and options, when matching is case
  sensitive or when lower-casing does not lengthen the term.
\<close>

theorem guards_return_absent:
  "(list = None \<or> field = None \<or> field = Some [] \<or> searchTerm = []
      \<or> length (normalizeCase lower (optCaseSensitive options) searchTerm) < 2 \<longrightarrow>
    smartFuzzySearch lower list field searchTerm options = None)
   \<and> (length searchTerm = 1 \<and> (optCaseSensitive options \<or> length (lower searchTerm) \<le> 1) \<longrightarrow>
    smartFuzzySearch lower list field searchTerm options = None)"
proof (intro conjI impI)
  assume "list = None \<or> field = None \<or> field = Some [] \<or> searchTerm = []
      \<or> length (normalizeCase lower (optCaseSensitive options) searchTerm) < 2"
  then show "smartFuzzySearch lower list field searchTerm options = None"
    by (rule smartFuzzySearch_guards)
next
  assume "length searchTerm = 1 \<and> (optCaseSensitive options \<or> length (lower searchTerm) \<le> 1)"
  then have "length (normalizeCase lower (optCaseSensitive options) searchTerm) < 2"
    by (auto simp: normalizeCase_def)
  then show "smartFuzzySearch lower list field searchTerm options = None"
    by (simp add: smartFuzzySearch_guards)
qed

theorem guards_return_absent_witness:
  "length (utf16 ''A'') = 1 \<and> length (lowerSample (utf16 ''A'')) \<le> 1
   \<and> smartFuzzySearch lowerSample (Some [named (JStr (utf16 ''Ab''))]) (Some (utf16 ''name''))
        (utf16 ''A'') noOptions = None"
proof -
  have h: "length (utf16 ''A'') = 1 \<and> length (lowerSample (utf16 ''A'')) \<le> 1"
    by (simp add: utf16_def lowerSample_def)
  with guards_return_absent[of "Some [named (JStr (utf16 ''Ab''))]" "Some (utf16 ''name'')"
      "utf16 ''A''" lowerSample noOptions]
  show ?thesis by blast
qed

text \<open>
  Claim C6, as stated, fails for a one-character search term whose lower case is longer:
  the gate is on the length of the normalized term. The lower case of U+0130 has two code
  units, so the term passes the gate, and the item whose field is the same character is an
  exact match and is returned.
\<close>

theorem one_unit_term_counterexample:
  "length [0x130 :: jschar] = 1
   \<and> smartFuzzySearch lowerSample (Some [named (JStr [0x130])]) (Some (utf16 ''name''))
        [0x130] noOptions = Some (named (JStr [0x130]))"
  by (simp add: smartFuzzySearch_def scoredItems_map scoreCandidate_def scoreItem_def
        rank_def exactResult_def named_def utf16_def lowerSample_def normalizeCase_def
        optCaseSensitive_def optMaxEditDistance_def optMinScore_def optWeightConfig_def
        mergeWeights_def DEFAULT_WEIGHT_CONFIG_def emptyWeights_def noOptions_def)

subsection \<open>Exact matches in smartFuzzySearch\<close>

lemma sample_options [simp]:
  "optWeightConfig (noOptions\<lparr>maxEditDistance := m\<rparr>) = DEFAULT_WEIGHT_CONFIG"
  "optCaseSensitive (noOptions\<lparr>maxEditDistance := m\<rparr>) = False"
  "optMinScore (noOptions\<lparr>maxEditDistance := m\<rparr>) = 3 / 10"
  "optEnableCache (noOptions\<lparr>maxEditDistance := m\<rparr>) = True"
  "optMaxEditDistance (noOptions\<lparr>maxEditDistance := m\<rparr>) = (case m of None \<Rightarrow> 10 | Some v \<Rightarrow> v)"
  "optWeightConfig noOptions = DEFAULT_WEIGHT_CONFIG"
  "optCaseSensitive noOptions = False"
  "optMinScore noOptions = 3 / 10"
  "optEnableCache noOptions = True"
  "optMaxEditDistance noOptions = 10"
  by (simp_all add: optWeightConfig_def optCaseSensitive_def optMinScore_def optEnableCache_def
        optMaxEditDistance_def mergeWeights_def DEFAULT_WEIGHT_CONFIG_def emptyWeights_def
        noOptions_def)

text \<open>
  Claim C2, amended. In a call of smartFuzzySearch that passes the outer guards, with
  \<open>maxEditDistance\<close> not negative, every candidate with a truthy field value whose
  normalized field value equals the normalized search term gets the score
  \<open>weightConfig.exactMatch\<close>, and the booleans \<open>exactMatch\<close>, \<open>prefixMatch\<close> and
  \<open>containsMatch\<close> of its details are true. (\<open>scoredItems\<close> is the list that such a call
  computes.)
\<close>

theorem exact_match_score:
  assumes "0 \<le> optMaxEditDistance options" and "i < length items"
    and "truthy ((items ! i) fieldKey)"
    and "normalizeCase lower (optCaseSensitive options) (toStr ((items ! i) fieldKey))
           = normalizeCase lower (optCaseSensitive options) searchTerm"
  shows "score (scoredItems lower fieldKey options
                  (normalizeCase lower (optCaseSensitive options) searchTerm) items ! i)
           = exactMatch (optWeightConfig options)
       \<and> exactMatchD (details (scoredItems lower fieldKey options
                  (normalizeCase lower (optCaseSensitive options) searchTerm) items ! i))
       \<and> prefixMatchD (details (scoredItems lower fieldKey options
                  (normalizeCase lower (optCaseSensitive options) searchTerm) items ! i))
       \<and> containsMatchD (details (scoredItems lower fieldKey options
                  (normalizeCase lower (optCaseSensitive options) searchTerm) items ! i))"
proof -
  let ?ns = "normalizeCase lower (optCaseSensitive options) searchTerm"
  have "scoredItems lower fieldKey options ?ns items ! i
      = scoreCandidate lower fieldKey options ?ns (items ! i)"
    using assms(2) by (simp add: scoredItems_map)
  also have "\<dots> = exactResult (optWeightConfig options) (items ! i)"
    using assms(1,3,4) by (intro scoreCandidate_exact) simp_all
  finally show ?thesis
    by (simp add: exactResult_def)
qed

theorem exact_match_score_witness:
  "0 \<le> optMaxEditDistance noOptions
   \<and> score (scoredItems lowerSample (utf16 ''name'') noOptions
               (normalizeCase lowerSample (optCaseSensitive noOptions) (utf16 ''AB''))
               [named (JStr (utf16 ''ab''))] ! 0) = 1"
proof -
  have h1: "0 \<le> optMaxEditDistance noOptions"
    by (simp add: optMaxEditDistance_def noOptions_def)
  have h2: "(0::nat) < length [named (JStr (utf16 ''ab''))]" by simp
  have h3: "truthy (([named (JStr (utf16 ''ab''))] ! 0) (utf16 ''name''))"
    by (simp add: named_def utf16_def)
  have h4: "normalizeCase lowerSample (optCaseSensitive noOptions)
              (toStr (([named (JStr (utf16 ''ab''))] ! 0) (utf16 ''name'')))
          = normalizeCase lowerSample (optCaseSensitive noOptions) (utf16 ''AB'')"
    by (simp add: named_def utf16_def normalizeCase_def lowerSample_def optCaseSensitive_def noOptions_def)
  have w: "exactMatch (optWeightConfig noOptions) = 1"
    by (simp add: optWeightConfig_def mergeWeights_def DEFAULT_WEIGHT_CONFIG_def emptyWeights_def
          noOptions_def)
  from exact_match_score[OF h1 h2 h3 h4] h1 w show ?thesis by simp
qed

text \<open>
  Claim C2, as stated, fails when \<open>maxEditDistance\<close> is negative: the length pre-filter
  comes before the exact-match test, and a length difference of 0 exceeds
  \<open>2 * maxEditDistance\<close>. The candidate equal to the search term then scores 0 with all
  details false, and the call returns absent.
\<close>

theorem exact_match_gated_counterexample:
  "2 \<le> length (normalizeCase lowerSample (optCaseSensitive (noOptions\<lparr>maxEditDistance := Some (- 1)\<rparr>))
              (utf16 ''ab''))
   \<and> truthy (named (JStr (utf16 ''ab'')) (utf16 ''name''))
   \<and> normalizeCase lowerSample (optCaseSensitive (noOptions\<lparr>maxEditDistance := Some (- 1)\<rparr>))
         (toStr (named (JStr (utf16 ''ab'')) (utf16 ''name'')))
       = normalizeCase lowerSample (optCaseSensitive (noOptions\<lparr>maxEditDistance := Some (- 1)\<rparr>))
           (utf16 ''ab'')
   \<and> exactMatch (optWeightConfig (noOptions\<lparr>maxEditDistance := Some (- 1)\<rparr>)) = 1
   \<and> score (scoredItems lowerSample (utf16 ''name'') (noOptions\<lparr>maxEditDistance := Some (- 1)\<rparr>)
              (normalizeCase lowerSample (optCaseSensitive (noOptions\<lparr>maxEditDistance := Some (- 1)\<rparr>))
                 (utf16 ''ab''))
              [named (JStr (utf16 ''ab''))] ! 0) = 0
   \<and> \<not> exactMatchD (details
          (scoredItems lowerSample (utf16 ''name'') (noOptions\<lparr>maxEditDistance := Some (- 1)\<rparr>)
              (normalizeCase lowerSample (optCaseSensitive (noOptions\<lparr>maxEditDistance := Some (- 1)\<rparr>))
                 (utf16 ''ab''))
              [named (JStr (utf16 ''ab''))] ! 0))
   \<and> smartFuzzySearch lowerSample (Some [named (JStr (utf16 ''ab''))]) (Some (utf16 ''name''))
        (utf16 ''ab'') (noOptions\<lparr>maxEditDistance := Some (- 1)\<rparr>) = None"
  by (simp add: smartFuzzySearch_def scoredItems_map scoreCandidate_def scoreItem_def
        rank_def zeroResult_def zeroDetails_def named_def utf16_def lowerSample_def normalizeCase_def
        DEFAULT_WEIGHT_CONFIG_def)

subsection \<open>Threshold of smartFuzzySearchAll\<close>

lemma ab_words: "splitWords (utf16 ''ab'') = [utf16 ''ab'']"
  by (simp add: splitWords_def utf16_def isDelimiter_def isWhiteSpace_def)

lemma ab_lower: "lowerSample (utf16 ''ab'') = utf16 ''ab''"
  by (simp add: utf16_def lowerSample_def)

lemma ab_subScores:
  "subScores DEFAULT_WEIGHT_CONFIG [utf16 ''ab''] [utf16 ''ab''] (utf16 ''ab'') (utf16 ''ab'')
     = [1, 8 / 10, 6 / 10, 7 / 10, 4 / 10, 2 / 10, 2 / 10]"
  by (simp add: subScores_def wordMatches_def startsWith_def calculateCharSimilarity_def
        calculateLengthSimilarity_def calculateEditDistance_lev newSet_def splitChars_def
        utf16_def DEFAULT_WEIGHT_CONFIG_def)

lemma ab_score:
  "score (scoreItemAll lowerSample (utf16 ''name'') noOptions (utf16 ''ab'') [utf16 ''ab'']
            (named (JStr (utf16 ''ab'')))) = 1"
proof -
  have f: "(named (JStr (utf16 ''ab''))) (utf16 ''name'') = JStr (utf16 ''ab'')"
    by (simp add: named_def)
  have ne: "utf16 ''ab'' \<noteq> []" by (simp add: utf16_def)
  show ?thesis
    unfolding scoreItemAll_def Let_def f
    by (simp add: ne normalizeCase_def ab_lower ab_words ab_subScores accumulate_def)
qed


lemma item_scoreItemAll [simp]: "item (scoreItemAll lower field options ns sw it) = it"
  by (simp add: scoreItemAll_def Let_def split_beta)

lemma smartFuzzySearchAll_guards:
  "list = None \<or> field = None \<or> field = Some [] \<or> searchTerm = [] \<Longrightarrow>
   smartFuzzySearchAll lower list field searchTerm options = []"
  by (auto simp: smartFuzzySearchAll_def split: option.splits)

lemma smartFuzzySearchAll_run:
  "fieldKey \<noteq> [] \<Longrightarrow> searchTerm \<noteq> [] \<Longrightarrow>
   smartFuzzySearchAll lower (Some items) (Some fieldKey) searchTerm options
     = map item (rank (optMinScore options)
         (scoredItemsAll lower fieldKey options
            (normalizeCase lower (optCaseSensitive options) searchTerm) items))"
  by (simp add: smartFuzzySearchAll_def Let_def)

text \<open>
  Claim C8. Every item in the sequence returned by smartFuzzySearchAll is an item of the
  collection whose computed score is at least the supplied \<open>minScore\<close> (0.3 by default).
\<close>

theorem all_matches_above_threshold:
  assumes "x \<in> set (smartFuzzySearchAll lower list field searchTerm options)"
  shows "\<exists>items fieldKey.
           list = Some items \<and> field = Some fieldKey \<and> x \<in> set items
           \<and> score (scoreItemAll lower fieldKey options
                       (normalizeCase lower (optCaseSensitive options) searchTerm)
                       (splitWords (normalizeCase lower (optCaseSensitive options) searchTerm)) x)
               \<ge> optMinScore options"
proof -
  have g: "\<not> (list = None \<or> field = None \<or> field = Some [] \<or> searchTerm = [])"
  proof
    assume "list = None \<or> field = None \<or> field = Some [] \<or> searchTerm = []"
    then have "smartFuzzySearchAll lower list field searchTerm options = []"
      by (rule smartFuzzySearchAll_guards)
    with assms show False by simp
  qed
  then obtain items fieldKey where lf: "list = Some items" "field = Some fieldKey"
    and ne: "fieldKey \<noteq> []" "searchTerm \<noteq> []"
    by (cases list; cases field) simp_all
  let ?ns = "normalizeCase lower (optCaseSensitive options) searchTerm"
  let ?f = "scoreItemAll lower fieldKey options ?ns (splitWords ?ns)"
  from assms have "x \<in> item ` set (rank (optMinScore options) (map ?f items))"
    unfolding lf smartFuzzySearchAll_run[OF ne] scoredItemsAll_def set_map .
  then obtain r where r: "x = item r" "r \<in> set (rank (optMinScore options) (map ?f items))"
    by (rule imageE)
  from r(2) have r': "r \<in> ?f ` set items" "score r \<ge> optMinScore options"
    unfolding set_rank set_map by simp_all
  from r'(1) obtain it where it: "r = ?f it" "it \<in> set items"
    by (rule imageE)
  from r(1) it(1) have "x = it" by (simp only: item_scoreItemAll)
  with it r'(2) lf show ?thesis by blast
qed

theorem all_matches_above_threshold_witness:
  "named (JStr (utf16 ''ab'')) \<in> set (smartFuzzySearchAll lowerSample
       (Some [named (JStr (utf16 ''ab''))]) (Some (utf16 ''name'')) (utf16 ''ab'') noOptions)
   \<and> score (scoreItemAll lowerSample (utf16 ''name'') noOptions
               (normalizeCase lowerSample (optCaseSensitive noOptions) (utf16 ''ab''))
               (splitWords (normalizeCase lowerSample (optCaseSensitive noOptions) (utf16 ''ab'')))
               (named (JStr (utf16 ''ab''))))
       \<ge> optMinScore noOptions"
proof -
  have ne: "utf16 ''name'' \<noteq> []" "utf16 ''ab'' \<noteq> []" by (simp_all add: utf16_def)
  have h: "named (JStr (utf16 ''ab'')) \<in> set (smartFuzzySearchAll lowerSample
       (Some [named (JStr (utf16 ''ab''))]) (Some (utf16 ''name'')) (utf16 ''ab'') noOptions)"
    unfolding smartFuzzySearchAll_run[OF ne]
    by (simp add: rank_def scoredItemsAll_def normalizeCase_def ab_lower ab_words ab_score)
  from all_matches_above_threshold[OF h] obtain items fieldKey where
    "Some [named (JStr (utf16 ''ab''))] = Some items" "Some (utf16 ''name'') = Some fieldKey"
    "score (scoreItemAll lowerSample fieldKey noOptions
               (normalizeCase lowerSample (optCaseSensitive noOptions) (utf16 ''ab''))
               (splitWords (normalizeCase lowerSample (optCaseSensitive noOptions) (utf16 ''ab'')))
               (named (JStr (utf16 ''ab''))))
       \<ge> optMinScore noOptions"
    by blast
  with h show ?thesis by simp
qed


subsection \<open>The score of smartFuzzySearchAll\<close>

lemma fold_accumulate:
  "fold accumulate xs (t, m) = (t + sum_list xs, fold max xs m)"
  by (induction xs arbitrary: t m) (simp_all add: accumulate_def max.commute)

lemma fold_max_Max: "fold max xs (m::real) = Max (insert m (set xs))"
proof (induction xs arbitrary: m)
  case Nil
  show ?case by simp
next
  case (Cons x xs)
  have "Max (insert (max x m) (set xs)) = Max (insert m (insert x (set xs)))"
    by (cases "set xs = {}") (simp_all add: max.commute max.left_commute max.assoc)
  with Cons show ?case by simp
qed

lemma subScores_tail:
  "\<exists>pre. subScores w sw fw nf ns = pre @
     [calculateCharSimilarity nf ns * charSimilarity w,
      calculateLengthSimilarity nf ns * lengthSimilarity w,
      (let editDistance = calculateEditDistance nf ns;
           maxLength = max (length nf) (length ns);
           editSimilarity = (if maxLength > 0
                             then (real maxLength - real_of_int editDistance) / real maxLength
                             else 0)
       in editSimilarity * charSimilarity w * (5 / 10))]"
  unfolding subScores_def by (metis append.assoc)

lemma charScore_in_subScores:
  "calculateCharSimilarity nf ns * charSimilarity w \<in> set (subScores w sw fw nf ns)"
  using subScores_tail[of w sw fw nf ns] by auto

lemma score_scoreItemAll:
  "truthy (it field) \<Longrightarrow>
   score (scoreItemAll lower field options ns sw it)
     = snd (fold accumulate
         (subScores (optWeightConfig options) sw
            (splitWords (normalizeCase lower (optCaseSensitive options) (toStr (it field))))
            (normalizeCase lower (optCaseSensitive options) (toStr (it field))) ns) (0, 0))"
  by (simp add: scoreItemAll_def Let_def split_beta)

lemma score_scoreItemAll_Max0:
  "truthy (it field) \<Longrightarrow>
   score (scoreItemAll lower field options ns sw it)
     = Max (insert 0 (set
         (subScores (optWeightConfig options) sw
            (splitWords (normalizeCase lower (optCaseSensitive options) (toStr (it field))))
            (normalizeCase lower (optCaseSensitive options) (toStr (it field))) ns)))"
  by (simp add: score_scoreItemAll fold_accumulate fold_max_Max)

text \<open>
  Claim C4. For every candidate with a truthy field value processed by
  smartFuzzySearchAll, the emitted score equals the maximum of its weighted heuristic
  sub-scores (the exact, prefix, contains and word-boundary scores when they apply, and
  the character, length and edit scores), not their sum: the pair
  \<open>(totalScore, maxScore)\<close> after the accumulation is the sum of the sub-scores and the
  emitted score, and the emitted score does not depend on the total. The weights are
  those of the spec's data model, numbers in [0,1]; the proof uses only that the
  character-similarity weight is not negative (the running maximum starts at 0, and the
  character score is always among the sub-scores).
\<close>

theorem all_matches_score_is_max:
  assumes "truthy (it field)" and "0 \<le> charSimilarity (optWeightConfig options)"
  shows "score (scoreItemAll lower field options ns (splitWords ns) it)
         = Max (set
              (subScores (optWeightConfig options) (splitWords ns)
                 (splitWords (normalizeCase lower (optCaseSensitive options) (toStr (it field))))
                 (normalizeCase lower (optCaseSensitive options) (toStr (it field))) ns))
       \<and> fold accumulate
           (subScores (optWeightConfig options) (splitWords ns)
              (splitWords (normalizeCase lower (optCaseSensitive options) (toStr (it field))))
              (normalizeCase lower (optCaseSensitive options) (toStr (it field))) ns) (0, 0)
         = (sum_list
              (subScores (optWeightConfig options) (splitWords ns)
                 (splitWords (normalizeCase lower (optCaseSensitive options) (toStr (it field))))
                 (normalizeCase lower (optCaseSensitive options) (toStr (it field))) ns),
            score (scoreItemAll lower field options ns (splitWords ns) it))"
proof -
  let ?nf = "normalizeCase lower (optCaseSensitive options) (toStr (it field))"
  let ?w = "optWeightConfig options"
  let ?subs = "subScores ?w (splitWords ns) (splitWords ?nf) ?nf ns"
  let ?sc = "score (scoreItemAll lower field options ns (splitWords ns) it)"
  have sc: "?sc = Max (insert 0 (set ?subs))"
    using assms(1) by (rule score_scoreItemAll_Max0)
  have acc: "fold accumulate ?subs (0, 0) = (sum_list ?subs, ?sc)"
    unfolding sc by (simp add: fold_accumulate fold_max_Max)
  let ?c = "calculateCharSimilarity ?nf ns * charSimilarity ?w"
  have mem: "?c \<in> set ?subs" by (rule charScore_in_subScores)
  have "0 \<le> ?c"
    using calculateCharSimilarity_range[of ?nf ns] assms(2) by simp
  also have "?c \<le> Max (set ?subs)"
    using mem by simp
  finally have "0 \<le> Max (set ?subs)" .
  moreover have "set ?subs \<noteq> {}" using mem by auto
  ultimately have "?sc = Max (set ?subs)"
    unfolding sc by (simp add: max_def)
  with acc show ?thesis by simp
qed

theorem all_matches_score_is_max_witness:
  "truthy (named (JStr (utf16 ''ab'')) (utf16 ''name''))
   \<and> 0 \<le> charSimilarity (optWeightConfig noOptions)
   \<and> score (scoreItemAll lowerSample (utf16 ''name'') noOptions (utf16 ''ab'')
               (splitWords (utf16 ''ab'')) (named (JStr (utf16 ''ab''))))
       = Max (set (subScores (optWeightConfig noOptions) (splitWords (utf16 ''ab''))
                 (splitWords (normalizeCase lowerSample (optCaseSensitive noOptions)
                    (toStr (named (JStr (utf16 ''ab'')) (utf16 ''name'')))))
                 (normalizeCase lowerSample (optCaseSensitive noOptions)
                    (toStr (named (JStr (utf16 ''ab'')) (utf16 ''name''))))
                 (utf16 ''ab'')))"
proof -
  have h1: "truthy (named (JStr (utf16 ''ab'')) (utf16 ''name''))"
    by (simp add: named_def utf16_def)
  have h2: "0 \<le> charSimilarity (optWeightConfig noOptions)"
    by (simp add: DEFAULT_WEIGHT_CONFIG_def)
  from all_matches_score_is_max[where it = "named (JStr (utf16 ''ab''))" and field = "utf16 ''name''"
      and options = noOptions and ns = "utf16 ''ab''" and lower = lowerSample, OF h1 h2] h1 h2
  show ?thesis by blast
qed

subsection \<open>The edit distance as a fallback in smartFuzzySearch\<close>

lemma score_scoredResult:
  "score (scoredResult options sw it nf ns cs)
     = fst (editStage (optWeightConfig options) (optMinScore options) (optMaxEditDistance options)
              nf ns (heuristicScore (optWeightConfig options) sw (splitWords nf) nf ns cs))"
  by (simp add: scoredResult_def finishCandidate_def Let_def split_beta)

lemma editSimilarityD_scoredResult:
  "editSimilarityD (details (scoredResult options sw it nf ns cs))
     = (case editStage (optWeightConfig options) (optMinScore options) (optMaxEditDistance options)
              nf ns (heuristicScore (optWeightConfig options) sw (splitWords nf) nf ns cs)
        of (maxScore', editScore, editDistance, maxLength) \<Rightarrow>
             if editScore > 0 then (real maxLength - real_of_int editDistance) / real maxLength else 0)"
  by (simp add: scoredResult_def finishCandidate_def Let_def split_beta)

lemma score_finishCandidate:
  "score (finishCandidate options it nf ns cs ls m)
     = fst (editStage (optWeightConfig options) (optMinScore options) (optMaxEditDistance options)
              nf ns m)"
  by (simp add: finishCandidate_def Let_def split_beta)

lemma editSimilarityD_finishCandidate:
  "editSimilarityD (details (finishCandidate options it nf ns cs ls m))
     = (case editStage (optWeightConfig options) (optMinScore options) (optMaxEditDistance options)
              nf ns m
        of (maxScore', editScore, editDistance, maxLength) \<Rightarrow>
             if editScore > 0 then (real maxLength - real_of_int editDistance) / real maxLength else 0)"
  by (simp add: finishCandidate_def Let_def split_beta)

lemma editStage_skip:
  "minScore' \<le> maxScore \<Longrightarrow> editStage w minScore' maxEd nf ns maxScore = (maxScore, 0, 0, 0)"
  by (simp add: editStage_def)

lemma editStage_within:
  assumes "maxScore < minScore'" "calculateEditDistanceOptimized nf ns maxEd \<le> maxEd" "nf \<noteq> ns"
  shows "editStage w minScore' maxEd nf ns maxScore
     = (max maxScore
          ((real (max (length nf) (length ns)) - real_of_int (calculateEditDistanceOptimized nf ns maxEd))
             / real (max (length nf) (length ns)) * charSimilarity w * (5 / 10)),
        (real (max (length nf) (length ns)) - real_of_int (calculateEditDistanceOptimized nf ns maxEd))
             / real (max (length nf) (length ns)) * charSimilarity w * (5 / 10),
        calculateEditDistanceOptimized nf ns maxEd,
        max (length nf) (length ns))"
proof -
  from assms(3) have "nf \<noteq> [] \<or> ns \<noteq> []" by auto
  then have "length nf > 0 \<or> length ns > 0" by simp
  then have "max (length nf) (length ns) > 0" by arith
  with assms(1,2) show ?thesis
    by (simp add: editStage_def Let_def)
qed

lemma editStage_beyond:
  "maxScore < minScore' \<Longrightarrow> \<not> calculateEditDistanceOptimized nf ns maxEd \<le> maxEd \<Longrightarrow>
   editStage w minScore' maxEd nf ns maxScore
     = (maxScore, 0, calculateEditDistanceOptimized nf ns maxEd, 0)"
  by (simp add: editStage_def Let_def)

text \<open>Two different strings are at distance 1 at least, for both engines.\<close>

lemma lev_nonneg: "0 \<le> lev xs ys"
  by (induction xs ys rule: lev.induct) auto

lemma lev_pos: "xs \<noteq> ys \<Longrightarrow> 1 \<le> lev xs ys"
proof (induction xs ys rule: lev.induct)
  case (1 ys)
  then show ?case by (cases ys) simp_all
next
  case (2 x xs)
  show ?case by simp
next
  case (3 x xs y ys)
  show ?case
  proof (cases "x = y")
    case True
    with 3 show ?thesis by simp
  next
    case False
    then show ?thesis
      using lev_nonneg[of xs ys] lev_nonneg[of "x # xs" ys] lev_nonneg[of xs "y # ys"] by simp
  qed
qed

lemma optimized_pos:
  assumes "nf \<noteq> ns" "0 \<le> maxEd"
  shows "1 \<le> calculateEditDistanceOptimized nf ns maxEd"
proof -
  from assms(1) have "rev nf \<noteq> rev ns" by simp
  then have "1 \<le> lev (rev nf) (rev ns)" by (rule lev_pos)
  with optimized_sound[of nf ns maxEd] assms(2) show ?thesis by linarith
qed

text \<open>
  A candidate of a call that reaches the heuristics is finished from the running maximum
  of the model (\<open>runningMax\<close>, computed in exact arithmetic). The program computes it in
  doubles, and the two can differ by rounding: for the field \<open>"abcdefghz"\<close> and the term
  \<open>"abcdefghijklmnopq"\<close> the exact value is \<open>8/17 * 0.85 = 2/5\<close> and the double is just
  below 0.4, so with \<open>minScore = 0.4\<close> the program runs the edit-distance block and the
  exact value would skip it. The theorem on the block below is therefore stated for every
  value of the running maximum, not for \<open>runningMax\<close>.
\<close>

lemma scoredItems_finishCandidate:
  assumes "i < length items" and "truthy ((items ! i) fieldKey)"
    and "nf = normalizeCase lower (optCaseSensitive options) (toStr ((items ! i) fieldKey))"
    and "\<not> \<bar>int (length nf) - int (length ns)\<bar> > optMaxEditDistance options * 2"
    and "nf \<noteq> ns"
  shows "scoredItems lower fieldKey options ns items ! i
       = finishCandidate options (items ! i) nf ns (calculateCharSimilarityOptimized nf ns)
           (calculateLengthSimilarity nf ns) (runningMax options nf ns)"
proof -
  have "scoredItems lower fieldKey options ns items ! i
      = scoreCandidate lower fieldKey options ns (items ! i)"
    using assms(1) by (simp add: scoredItems_map)
  also have "\<dots> = scoredResult options (splitWords ns) (items ! i) nf ns
                     (calculateCharSimilarityOptimized nf ns)"
    unfolding assms(3) using assms(2,4,5) unfolding assms(3)
    by (rule scoreCandidate_scored)
  finally show ?thesis
    by (simp add: scoredResult_def runningMax_def Let_def)
qed

lemmas scorer_eval =
  heuristicScore_def startsWith_def calculateSubstringMatch_def calculateCommonPrefix_def
  commonPrefixLoop.simps continuousRun.simps calculateContinuousMatch_def calculateChineseWordMatch_def
  calculateCharSimilarityOptimized_def calculateLengthSimilarity_def wordMatches_def newSet_def
  splitChars_def charAt_def isHighSurrogate_def isLowSurrogate_def utf16_def DEFAULT_WEIGHT_CONFIG_def
  splitWords_def isDelimiter_def isWhiteSpace_def Let_def upt_rec

lemma strict_options [simp]:
  "optWeightConfig (noOptions\<lparr>minScore := m\<rparr>) = DEFAULT_WEIGHT_CONFIG"
  "optCaseSensitive (noOptions\<lparr>minScore := m\<rparr>) = False"
  "optMinScore (noOptions\<lparr>minScore := Some v\<rparr>) = v"
  "optMaxEditDistance (noOptions\<lparr>minScore := m\<rparr>) = 10"
  by (simp_all add: optWeightConfig_def optCaseSensitive_def optMinScore_def
        optMaxEditDistance_def mergeWeights_def DEFAULT_WEIGHT_CONFIG_def emptyWeights_def
        noOptions_def)

lemma running_ab_abc: "runningMax noOptions (utf16 ''ab'') (utf16 ''abc'') = 4 / 5"
  unfolding runningMax_def sample_options by (simp add: scorer_eval)

lemma running_ab_abc_strict:
  "runningMax (noOptions\<lparr>minScore := Some (9 / 10)\<rparr>) (utf16 ''ab'') (utf16 ''abc'') = 4 / 5"
  using running_ab_abc by (simp add: runningMax_def)

lemma distance_ab_abc: "calculateEditDistanceOptimized (utf16 ''ab'') (utf16 ''abc'') 10 = 1"
  by code_simp

text \<open>
  Claim C5. \<open>maxScore\<close> is the running maximum over the heuristics before the edit
  distance, as it enters the edit-distance block of a candidate that is not an exact
  match (whatever value the arithmetic of the heuristics gave it); \<open>d\<close> is the bounded
  distance, \<open>maxLen\<close> the longer of the two normalized lengths.
  If \<open>maxScore\<close> is at least \<open>minScore\<close>, the distance is not computed: the variables of
  the block keep their initial values, the final score is \<open>maxScore\<close> and the reported
  edit similarity is 0.
  If \<open>maxScore\<close> is below \<open>minScore\<close>, the distance is computed (\<open>editDistance\<close> is \<open>d\<close>, which
  is at least 1 when \<open>maxEditDistance\<close> is not negative); if \<open>d\<close> is at most
  \<open>maxEditDistance\<close>, the final score is the maximum of \<open>maxScore\<close> and
  \<open>((maxLen - d) / maxLen) * weightConfig.charSimilarity * 0.5\<close>, and the reported edit
  similarity is \<open>(maxLen - d) / maxLen\<close> when that product is positive; if \<open>d\<close> is larger,
  the final score is \<open>maxScore\<close> and the reported edit similarity is 0.
\<close>

theorem edit_distance_fallback:
  assumes "nf \<noteq> ns"
  shows "(optMinScore options \<le> maxScore \<longrightarrow>
            editStage (optWeightConfig options) (optMinScore options) (optMaxEditDistance options)
                nf ns maxScore = (maxScore, 0, 0, 0)
            \<and> score (finishCandidate options it nf ns charSim lengthSim maxScore) = maxScore
            \<and> editSimilarityD (details (finishCandidate options it nf ns charSim lengthSim maxScore)) = 0)
       \<and> (maxScore < optMinScore options
            \<and> calculateEditDistanceOptimized nf ns (optMaxEditDistance options)
                 \<le> optMaxEditDistance options \<longrightarrow>
            editStage (optWeightConfig options) (optMinScore options) (optMaxEditDistance options)
                nf ns maxScore
              = (max maxScore
                   ((real (max (length nf) (length ns))
                       - real_of_int (calculateEditDistanceOptimized nf ns (optMaxEditDistance options)))
                     / real (max (length nf) (length ns))
                     * charSimilarity (optWeightConfig options) * (5 / 10)),
                 (real (max (length nf) (length ns))
                       - real_of_int (calculateEditDistanceOptimized nf ns (optMaxEditDistance options)))
                     / real (max (length nf) (length ns))
                     * charSimilarity (optWeightConfig options) * (5 / 10),
                 calculateEditDistanceOptimized nf ns (optMaxEditDistance options),
                 max (length nf) (length ns))
            \<and> score (finishCandidate options it nf ns charSim lengthSim maxScore)
              = max maxScore
                   ((real (max (length nf) (length ns))
                       - real_of_int (calculateEditDistanceOptimized nf ns (optMaxEditDistance options)))
                     / real (max (length nf) (length ns))
                     * charSimilarity (optWeightConfig options) * (5 / 10))
            \<and> editSimilarityD (details (finishCandidate options it nf ns charSim lengthSim maxScore))
              = (if (real (max (length nf) (length ns))
                       - real_of_int (calculateEditDistanceOptimized nf ns (optMaxEditDistance options)))
                     / real (max (length nf) (length ns))
                     * charSimilarity (optWeightConfig options) * (5 / 10) > 0
                 then (real (max (length nf) (length ns))
                       - real_of_int (calculateEditDistanceOptimized nf ns (optMaxEditDistance options)))
                     / real (max (length nf) (length ns))
                 else 0))
       \<and> (maxScore < optMinScore options
            \<and> \<not> calculateEditDistanceOptimized nf ns (optMaxEditDistance options)
                 \<le> optMaxEditDistance options \<longrightarrow>
            editStage (optWeightConfig options) (optMinScore options) (optMaxEditDistance options)
                nf ns maxScore
              = (maxScore, 0, calculateEditDistanceOptimized nf ns (optMaxEditDistance options), 0)
            \<and> score (finishCandidate options it nf ns charSim lengthSim maxScore) = maxScore
            \<and> editSimilarityD (details (finishCandidate options it nf ns charSim lengthSim maxScore)) = 0)
       \<and> (0 \<le> optMaxEditDistance options \<longrightarrow>
            1 \<le> calculateEditDistanceOptimized nf ns (optMaxEditDistance options))"
proof -
  let ?w = "optWeightConfig options" and ?m = "optMinScore options" and ?e = "optMaxEditDistance options"
  let ?d = "calculateEditDistanceOptimized nf ns ?e"
  let ?r = "finishCandidate options it nf ns charSim lengthSim maxScore"
  let ?t = "(real (max (length nf) (length ns)) - real_of_int ?d)
              / real (max (length nf) (length ns)) * charSimilarity ?w * (5 / 10)"
  have A: "editStage ?w ?m ?e nf ns maxScore = (maxScore, 0, 0, 0)
         \<and> score ?r = maxScore \<and> editSimilarityD (details ?r) = 0" if "?m \<le> maxScore"
    unfolding score_finishCandidate editSimilarityD_finishCandidate editStage_skip[OF that] by simp
  have B: "editStage ?w ?m ?e nf ns maxScore = (max maxScore ?t, ?t, ?d, max (length nf) (length ns))
         \<and> score ?r = max maxScore ?t
         \<and> editSimilarityD (details ?r)
           = (if ?t > 0 then (real (max (length nf) (length ns)) - real_of_int ?d)
                               / real (max (length nf) (length ns)) else 0)"
    if "maxScore < ?m \<and> ?d \<le> ?e"
  proof -
    from that have a: "maxScore < ?m" and b: "?d \<le> ?e" by simp_all
    show ?thesis
      unfolding score_finishCandidate editSimilarityD_finishCandidate
        editStage_within[OF a b assms] by simp
  qed
  have C: "editStage ?w ?m ?e nf ns maxScore = (maxScore, 0, ?d, 0)
         \<and> score ?r = maxScore \<and> editSimilarityD (details ?r) = 0"
    if "maxScore < ?m \<and> \<not> ?d \<le> ?e"
  proof -
    from that have a: "maxScore < ?m" and b: "\<not> ?d \<le> ?e" by simp_all
    show ?thesis
      unfolding score_finishCandidate editSimilarityD_finishCandidate
        editStage_beyond[OF a b] by simp
  qed
  have D: "1 \<le> ?d" if "0 \<le> ?e"
    using assms that by (rule optimized_pos)
  from A B C D show ?thesis by blast
qed

theorem edit_distance_fallback_witness:
  "utf16 ''ab'' \<noteq> utf16 ''abc''
   \<and> optMinScore noOptions \<le> runningMax noOptions (utf16 ''ab'') (utf16 ''abc'')
   \<and> score (scoredItems lowerSample (utf16 ''name'') noOptions (utf16 ''abc'')
              [named (JStr (utf16 ''AB''))] ! 0) = 4 / 5
   \<and> editSimilarityD (details (scoredItems lowerSample (utf16 ''name'') noOptions (utf16 ''abc'')
              [named (JStr (utf16 ''AB''))] ! 0)) = 0
   \<and> runningMax (noOptions\<lparr>minScore := Some (9 / 10)\<rparr>) (utf16 ''ab'') (utf16 ''abc'')
       < optMinScore (noOptions\<lparr>minScore := Some (9 / 10)\<rparr>)
   \<and> calculateEditDistanceOptimized (utf16 ''ab'') (utf16 ''abc'')
         (optMaxEditDistance (noOptions\<lparr>minScore := Some (9 / 10)\<rparr>))
       \<le> optMaxEditDistance (noOptions\<lparr>minScore := Some (9 / 10)\<rparr>)
   \<and> editStage (optWeightConfig (noOptions\<lparr>minScore := Some (9 / 10)\<rparr>))
         (optMinScore (noOptions\<lparr>minScore := Some (9 / 10)\<rparr>))
         (optMaxEditDistance (noOptions\<lparr>minScore := Some (9 / 10)\<rparr>))
         (utf16 ''ab'') (utf16 ''abc'')
         (runningMax (noOptions\<lparr>minScore := Some (9 / 10)\<rparr>) (utf16 ''ab'') (utf16 ''abc''))
       = (4 / 5, 2 / 15, 1, 3)
   \<and> score (scoredItems lowerSample (utf16 ''name'') (noOptions\<lparr>minScore := Some (9 / 10)\<rparr>)
              (utf16 ''abc'') [named (JStr (utf16 ''AB''))] ! 0) = 4 / 5
   \<and> editSimilarityD (details (scoredItems lowerSample (utf16 ''name'')
              (noOptions\<lparr>minScore := Some (9 / 10)\<rparr>) (utf16 ''abc'')
              [named (JStr (utf16 ''AB''))] ! 0)) = 2 / 3"
proof -
  let ?strict = "noOptions\<lparr>minScore := Some (9 / 10)\<rparr>"
  let ?it = "named (JStr (utf16 ''AB''))"
  have i: "(0::nat) < length [?it]" by simp
  have t: "truthy (([?it] ! 0) (utf16 ''name''))"
    by (simp add: named_def utf16_def)
  have nf: "utf16 ''ab'' = normalizeCase lowerSample (optCaseSensitive noOptions)
                (toStr (([?it] ! 0) (utf16 ''name'')))"
    and nf': "utf16 ''ab'' = normalizeCase lowerSample (optCaseSensitive ?strict)
                (toStr (([?it] ! 0) (utf16 ''name'')))"
    by (simp_all add: named_def normalizeCase_def lowerSample_def utf16_def)
  have g: "\<not> \<bar>int (length (utf16 ''ab'')) - int (length (utf16 ''abc''))\<bar>
      > optMaxEditDistance noOptions * 2"
    and g': "\<not> \<bar>int (length (utf16 ''ab'')) - int (length (utf16 ''abc''))\<bar>
      > optMaxEditDistance ?strict * 2"
    by (simp_all add: utf16_def)
  have ne: "utf16 ''ab'' \<noteq> utf16 ''abc''"
    by (simp add: utf16_def)
  have len: "length (utf16 ''ab'') = 2" "length (utf16 ''abc'') = 3"
    by (simp_all add: utf16_def)
  have r1: "scoredItems lowerSample (utf16 ''name'') noOptions (utf16 ''abc'') [?it] ! 0
      = finishCandidate noOptions ([?it] ! 0) (utf16 ''ab'') (utf16 ''abc'')
          (calculateCharSimilarityOptimized (utf16 ''ab'') (utf16 ''abc''))
          (calculateLengthSimilarity (utf16 ''ab'') (utf16 ''abc''))
          (runningMax noOptions (utf16 ''ab'') (utf16 ''abc''))"
    using i t nf g ne by (rule scoredItems_finishCandidate)
  have r2: "scoredItems lowerSample (utf16 ''name'') ?strict (utf16 ''abc'') [?it] ! 0
      = finishCandidate ?strict ([?it] ! 0) (utf16 ''ab'') (utf16 ''abc'')
          (calculateCharSimilarityOptimized (utf16 ''ab'') (utf16 ''abc''))
          (calculateLengthSimilarity (utf16 ''ab'') (utf16 ''abc''))
          (runningMax ?strict (utf16 ''ab'') (utf16 ''abc''))"
    using i t nf' g' ne by (rule scoredItems_finishCandidate)
  have h1: "optMinScore noOptions \<le> runningMax noOptions (utf16 ''ab'') (utf16 ''abc'')"
    unfolding running_ab_abc by simp
  have h2: "runningMax ?strict (utf16 ''ab'') (utf16 ''abc'') < optMinScore ?strict"
    unfolding running_ab_abc_strict by simp
  have h3: "calculateEditDistanceOptimized (utf16 ''ab'') (utf16 ''abc'') (optMaxEditDistance ?strict)
      \<le> optMaxEditDistance ?strict"
    by (simp add: distance_ab_abc)
  note T1 = edit_distance_fallback[OF ne, where options = noOptions
      and maxScore = "runningMax noOptions (utf16 ''ab'') (utf16 ''abc'')"
      and it = "[?it] ! 0"
      and charSim = "calculateCharSimilarityOptimized (utf16 ''ab'') (utf16 ''abc'')"
      and lengthSim = "calculateLengthSimilarity (utf16 ''ab'') (utf16 ''abc'')"]
  note T2 = edit_distance_fallback[OF ne, where options = ?strict
      and maxScore = "runningMax ?strict (utf16 ''ab'') (utf16 ''abc'')"
      and it = "[?it] ! 0"
      and charSim = "calculateCharSimilarityOptimized (utf16 ''ab'') (utf16 ''abc'')"
      and lengthSim = "calculateLengthSimilarity (utf16 ''ab'') (utf16 ''abc'')"]
  from T1 h1 have s1: "score (scoredItems lowerSample (utf16 ''name'') noOptions (utf16 ''abc'') [?it] ! 0)
        = runningMax noOptions (utf16 ''ab'') (utf16 ''abc'')"
    and e1: "editSimilarityD (details (scoredItems lowerSample (utf16 ''name'') noOptions
        (utf16 ''abc'') [?it] ! 0)) = 0"
    unfolding r1 by blast+
  from T2 h2 h3 have
    st: "editStage (optWeightConfig ?strict) (optMinScore ?strict) (optMaxEditDistance ?strict)
           (utf16 ''ab'') (utf16 ''abc'') (runningMax ?strict (utf16 ''ab'') (utf16 ''abc''))
         = (4 / 5, 2 / 15, 1, 3)"
    and s2: "score (scoredItems lowerSample (utf16 ''name'') ?strict (utf16 ''abc'') [?it] ! 0) = 4 / 5"
    and e2: "editSimilarityD (details (scoredItems lowerSample (utf16 ''name'') ?strict
        (utf16 ''abc'') [?it] ! 0)) = 2 / 3"
    unfolding r2 by (simp_all add: running_ab_abc_strict distance_ab_abc len DEFAULT_WEIGHT_CONFIG_def)
  from ne h1 s1 e1 h2 h3 st s2 e2 show ?thesis
    by (simp add: running_ab_abc)
qed


subsection \<open>Case-insensitive matching\<close>

lemma score_zeroResult: "score (zeroResult it) = 0"
  by (simp add: zeroResult_def)

lemma score_exactResult: "score (exactResult w it) = exactMatch w"
  by (simp add: exactResult_def)

text \<open>
  The score of a candidate depends on its field value only through its truthiness and
  its normalized string.
\<close>

lemma score_scoreCandidate_cong:
  assumes "truthy (it field) = truthy (it' field)"
    and "normalizeCase lower (optCaseSensitive options) (toStr (it field))
       = normalizeCase lower (optCaseSensitive options) (toStr (it' field))"
  shows "score (scoreCandidate lower field options ns it)
       = score (scoreCandidate lower field options ns it')"
proof -
  let ?nf = "normalizeCase lower (optCaseSensitive options) (toStr (it field))"
  consider (falsy) "\<not> truthy (it field)"
    | (gated) "truthy (it field)"
        "\<bar>int (length ?nf) - int (length ns)\<bar> > optMaxEditDistance options * 2"
    | (exact) "truthy (it field)"
        "\<not> \<bar>int (length ?nf) - int (length ns)\<bar> > optMaxEditDistance options * 2" "?nf = ns"
    | (scored) "truthy (it field)"
        "\<not> \<bar>int (length ?nf) - int (length ns)\<bar> > optMaxEditDistance options * 2" "?nf \<noteq> ns"
    by blast
  then show ?thesis
  proof cases
    case falsy
    then show ?thesis
      using assms(1) by (simp add: scoreCandidate_falsy score_zeroResult)
  next
    case gated
    have a: "scoreCandidate lower field options ns it = zeroResult it"
      using gated by (rule scoreCandidate_gated)
    have b: "scoreCandidate lower field options ns it' = zeroResult it'"
      using gated unfolding assms by (rule scoreCandidate_gated)
    show ?thesis unfolding a b score_zeroResult ..
  next
    case exact
    have a: "scoreCandidate lower field options ns it = exactResult (optWeightConfig options) it"
      using exact by (rule scoreCandidate_exact)
    have b: "scoreCandidate lower field options ns it' = exactResult (optWeightConfig options) it'"
      using exact unfolding assms by (rule scoreCandidate_exact)
    show ?thesis unfolding a b score_exactResult ..
  next
    case scored
    have a: "scoreCandidate lower field options ns it
        = scoredResult options (splitWords ns) it ?nf ns (calculateCharSimilarityOptimized ?nf ns)"
      using scored by (rule scoreCandidate_scored)
    have b: "scoreCandidate lower field options ns it'
        = scoredResult options (splitWords ns) it' ?nf ns (calculateCharSimilarityOptimized ?nf ns)"
      using scoreCandidate_scored[where it = it' and field = field and lower = lower
          and options = options and ns = ns] scored
      unfolding assms by simp
    show ?thesis unfolding a b score_scoredResult ..
  qed
qed

lemma score_scoreItemAll_cong:
  assumes "truthy (it field) = truthy (it' field)"
    and "normalizeCase lower (optCaseSensitive options) (toStr (it field))
       = normalizeCase lower (optCaseSensitive options) (toStr (it' field))"
  shows "score (scoreItemAll lower field options ns sw it)
       = score (scoreItemAll lower field options ns sw it')"
proof (cases "truthy (it field)")
  case True
  with assms(1) have t': "truthy (it' field)" by simp
  show ?thesis
    unfolding score_scoreItemAll[where it = it and field = field, OF True]
      score_scoreItemAll[where it = it' and field = field, OF t'] assms(2) ..
next
  case False
  with assms(1) show ?thesis
    by (simp add: scoreItemAll_def)
qed

lemma map_update_same:
  "i < length xs \<Longrightarrow> g x' = g (xs ! i) \<Longrightarrow> map g (xs[i := x']) = map g xs"
  by (simp add: map_update list_update_same_conv)

lemma smartFuzzySearch_term_cong:
  assumes "normalizeCase lower (optCaseSensitive options) t1
         = normalizeCase lower (optCaseSensitive options) t2" and "(t1 = []) = (t2 = [])"
  shows "smartFuzzySearch lower list field t1 options = smartFuzzySearch lower list field t2 options"
  unfolding smartFuzzySearch_def assms(1) using assms(2)
  by (simp split: option.splits)

lemma smartFuzzySearchAll_term_cong:
  assumes "normalizeCase lower (optCaseSensitive options) t1
         = normalizeCase lower (optCaseSensitive options) t2" and "(t1 = []) = (t2 = [])"
  shows "smartFuzzySearchAll lower list field t1 options
       = smartFuzzySearchAll lower list field t2 options"
  unfolding smartFuzzySearchAll_def assms(1) using assms(2)
  by (simp split: option.splits)

lemma lowerSample_empty: "(lowerSample s = []) = (s = [])"
  by (cases s) (simp_all add: lowerSample_def)

text \<open>
  Claim C9. With \<open>caseSensitive\<close> false or omitted, for every collection, field and
  options: two search terms with equal lower-casings give the same result of
  smartFuzzySearch and the same sequence of smartFuzzySearchAll; and replacing the string
  field value of a candidate by a string with the same lower-casing leaves the computed
  scores of both entry points unchanged. The platform's lower-casing \<open>lower\<close> is assumed
  to map the empty string, and only the empty string, to the empty string, as
  \<open>toLowerCase\<close> does (the guards test the raw term and the raw field value for
  emptiness).
\<close>

theorem case_insensitive_invariance:
  assumes "\<not> optCaseSensitive options" and "\<forall>s. (lower s = []) = (s = [])"
  shows "(lower t1 = lower t2 \<longrightarrow>
            smartFuzzySearch lower list field t1 options
              = smartFuzzySearch lower list field t2 options
            \<and> smartFuzzySearchAll lower list field t1 options
              = smartFuzzySearchAll lower list field t2 options)
       \<and> (i < length items \<and> (items ! i) fieldKey = JStr s \<and> lower s' = lower s \<longrightarrow>
            map score (scoredItems lower fieldKey options ns
                         (items[i := (items ! i)(fieldKey := JStr s')]))
              = map score (scoredItems lower fieldKey options ns items)
            \<and> map score (scoredItemsAll lower fieldKey options ns
                         (items[i := (items ! i)(fieldKey := JStr s')]))
              = map score (scoredItemsAll lower fieldKey options ns items))"
proof (intro conjI impI)
  assume eq: "lower t1 = lower t2"
  then have n: "normalizeCase lower (optCaseSensitive options) t1
      = normalizeCase lower (optCaseSensitive options) t2"
    using assms(1) by (simp add: normalizeCase_def)
  have e: "(t1 = []) = (t2 = [])"
    using assms(2) eq by metis
  show "smartFuzzySearch lower list field t1 options = smartFuzzySearch lower list field t2 options"
    using n e by (rule smartFuzzySearch_term_cong)
  show "smartFuzzySearchAll lower list field t1 options
      = smartFuzzySearchAll lower list field t2 options"
    using n e by (rule smartFuzzySearchAll_term_cong)
next
  assume a: "i < length items \<and> (items ! i) fieldKey = JStr s \<and> lower s' = lower s"
  let ?it' = "(items ! i)(fieldKey := JStr s')"
  have e: "(s' = []) = (s = [])"
    using assms(2) a by metis
  have t: "truthy (?it' fieldKey) = truthy ((items ! i) fieldKey)"
    using a e by simp
  have n: "normalizeCase lower (optCaseSensitive options) (toStr (?it' fieldKey))
      = normalizeCase lower (optCaseSensitive options) (toStr ((items ! i) fieldKey))"
    using a assms(1) by (simp add: normalizeCase_def)
  have "map (\<lambda>x. score (scoreCandidate lower fieldKey options ns x)) (items[i := ?it'])
      = map (\<lambda>x. score (scoreCandidate lower fieldKey options ns x)) items"
    using a score_scoreCandidate_cong[where it = ?it' and it' = "items ! i" and field = fieldKey, OF t n]
    by (intro map_update_same) simp_all
  then show "map score (scoredItems lower fieldKey options ns (items[i := ?it']))
      = map score (scoredItems lower fieldKey options ns items)"
    by (simp add: scoredItems_map comp_def)
  have "map (\<lambda>x. score (scoreItemAll lower fieldKey options ns (splitWords ns) x)) (items[i := ?it'])
      = map (\<lambda>x. score (scoreItemAll lower fieldKey options ns (splitWords ns) x)) items"
    using a score_scoreItemAll_cong[where it = ?it' and it' = "items ! i" and field = fieldKey, OF t n]
    by (intro map_update_same) simp_all
  then show "map score (scoredItemsAll lower fieldKey options ns (items[i := ?it']))
      = map score (scoredItemsAll lower fieldKey options ns items)"
    by (simp add: scoredItemsAll_def comp_def)
qed

theorem case_insensitive_invariance_witness:
  "\<not> optCaseSensitive noOptions
   \<and> lowerSample (utf16 ''AB'') = lowerSample (utf16 ''ab'')
   \<and> smartFuzzySearch lowerSample (Some [named (JStr (utf16 ''Ab''))]) (Some (utf16 ''name''))
        (utf16 ''AB'') noOptions
     = smartFuzzySearch lowerSample (Some [named (JStr (utf16 ''Ab''))]) (Some (utf16 ''name''))
        (utf16 ''ab'') noOptions
   \<and> smartFuzzySearchAll lowerSample (Some [named (JStr (utf16 ''Ab''))]) (Some (utf16 ''name''))
        (utf16 ''AB'') noOptions
     = smartFuzzySearchAll lowerSample (Some [named (JStr (utf16 ''Ab''))]) (Some (utf16 ''name''))
        (utf16 ''ab'') noOptions"
proof -
  have h1: "\<not> optCaseSensitive noOptions" by simp
  have h2: "\<forall>s. (lowerSample s = []) = (s = [])" by (simp add: lowerSample_empty)
  have h3: "lowerSample (utf16 ''AB'') = lowerSample (utf16 ''ab'')"
    by (simp add: lowerSample_def utf16_def)
  from case_insensitive_invariance[OF h1 h2, of "utf16 ''AB''" "utf16 ''ab''"
      "Some [named (JStr (utf16 ''Ab''))]" "Some (utf16 ''name'')"] h1 h3
  show ?thesis by blast
qed


subsection \<open>The character similarity reported by the two entry points\<close>

text \<open>
  The two strings on which the character similarities differ reach them through the
  entry points: as search term, U+20BB8 has two code units and passes the length gate
  of smartFuzzySearch. For the same candidate and term, the details of smartFuzzySearch
  report the character similarity 0 and those of smartFuzzySearchAll report 1/3.
\<close>

lemma charSimilarityD_scoredResult:
  "charSimilarityD (details (scoredResult options sw it nf ns cs)) = cs"
  by (simp add: scoredResult_def finishCandidate_def Let_def split_beta)

lemma charSimilarityD_scoreItemAll:
  "truthy (it field) \<Longrightarrow>
   charSimilarityD (details (scoreItemAll lower field options ns sw it))
     = calculateCharSimilarity (normalizeCase lower (optCaseSensitive options) (toStr (it field))) ns"
  by (simp add: scoreItemAll_def Let_def split_beta)

lemma charSimilarity_differs_in_details:
  "charSimilarityD (details (scoredItems lowerSample (utf16 ''name'') noOptions [0xD842, 0xDFB8]
       [named (JStr [0xD842, 0xDFB7])] ! 0)) = 0
   \<and> charSimilarityD (details (scoredItemsAll lowerSample (utf16 ''name'') noOptions [0xD842, 0xDFB8]
       [named (JStr [0xD842, 0xDFB7])] ! 0)) = 1 / 3"
proof -
  let ?it = "named (JStr [0xD842, 0xDFB7])"
  have t: "truthy (?it (utf16 ''name''))" by (simp add: named_def)
  have nf: "normalizeCase lowerSample False (toStr (?it (utf16 ''name''))) = [0xD842, 0xDFB7]"
    by (simp add: named_def normalizeCase_def lowerSample_def)
  have g: "\<not> \<bar>int (length [0xD842, 0xDFB7 :: jschar]) - int (length [0xD842, 0xDFB8 :: jschar])\<bar>
      > optMaxEditDistance noOptions * 2"
    by simp
  have ne: "[0xD842, 0xDFB7 :: jschar] \<noteq> [0xD842, 0xDFB8]" by simp
  have "scoreCandidate lowerSample (utf16 ''name'') noOptions [0xD842, 0xDFB8] ?it
      = scoredResult noOptions (splitWords [0xD842, 0xDFB8]) ?it [0xD842, 0xDFB7] [0xD842, 0xDFB8]
          (calculateCharSimilarityOptimized [0xD842, 0xDFB7] [0xD842, 0xDFB8])"
    using scoreCandidate_scored[where it = ?it and field = "utf16 ''name''" and lower = lowerSample
        and options = noOptions and ns = "[0xD842, 0xDFB8]"] t g ne
    by (simp add: nf)
  then have a: "charSimilarityD (details (scoredItems lowerSample (utf16 ''name'') noOptions
      [0xD842, 0xDFB8] [?it] ! 0)) = calculateCharSimilarityOptimized [0xD842, 0xDFB7] [0xD842, 0xDFB8]"
    by (simp add: scoredItems_map charSimilarityD_scoredResult)
  have b: "charSimilarityD (details (scoredItemsAll lowerSample (utf16 ''name'') noOptions
      [0xD842, 0xDFB8] [?it] ! 0)) = calculateCharSimilarity [0xD842, 0xDFB7] [0xD842, 0xDFB8]"
    using charSimilarityD_scoreItemAll[where it = ?it and field = "utf16 ''name''"
        and lower = lowerSample and options = noOptions, OF t]
    by (simp add: scoredItemsAll_def nf)
  have va: "calculateCharSimilarityOptimized [0xD842, 0xDFB7] [0xD842, 0xDFB8] = 0"
    by (simp add: calculateCharSimilarityOptimized_def newSet_def isHighSurrogate_def
          isLowSurrogate_def)
  have vb: "calculateCharSimilarity [0xD842, 0xDFB7] [0xD842, 0xDFB8] = 1 / 3"
    by (simp add: calculateCharSimilarity_def newSet_def splitChars_def)
  from a b va vb show ?thesis by simp
qed

end
